theory Spec2Isabelle
  imports Main "HOL-Library.Sublist" "HOL-Library.AList"
begin

section \<open>Python values, errors and string primitives\<close>

text \<open>
  The module \<^verbatim>\<open>phoebe/backend/decorators.py\<close> is Python 2. Exceptions are values of
  \<open>error\<close>; a function that can raise returns a sum with the error on the left.
\<close>

datatype error =
    KeyError | TypeError | IndexError | ValueError | UnboundLocalError
  | SystemExit int | IOError | PickleError | ComputeParamsError | EngineError

text \<open>\<^verbatim>\<open>s.split(c)\<close> for a one-character separator: never empty, keeps empty pieces.\<close>

fun py_split :: "char \<Rightarrow> string \<Rightarrow> string list" where
  "py_split c [] = [[]]"
| "py_split c (x # xs) =
     (if x = c then [] # py_split c xs
      else (case py_split c xs of [] \<Rightarrow> [[x]] | w # ws \<Rightarrow> (x # w) # ws))"

text \<open>The whitespace of Python 2 byte strings: space, tab, LF, VT, FF, CR.\<close>

definition is_space :: "char \<Rightarrow> bool" where
  "is_space c = (c \<in> set [CHR '' '', CHR 0x09, CHR 0x0A, CHR 0x0B, CHR 0x0C, CHR 0x0D])"

definition py_strip :: "string \<Rightarrow> string" where
  "py_strip s = rev (dropWhile is_space (rev (dropWhile is_space s)))"

text \<open>\<^verbatim>\<open>s.split()\<close>: the maximal runs of non-whitespace, \<open>cur\<close> being the run read so far.\<close>

fun py_words_from :: "string \<Rightarrow> string \<Rightarrow> string list" where
  "py_words_from cur [] = (if cur = [] then [] else [cur])"
| "py_words_from cur (x # xs) =
     (if is_space x then (if cur = [] then py_words_from [] xs else cur # py_words_from [] xs)
      else py_words_from (cur @ [x]) xs)"

definition py_words :: "string \<Rightarrow> string list" where
  "py_words s = py_words_from [] s"

text \<open>\<^verbatim>\<open>xs[-2]\<close> raises IndexError on fewer than two elements.\<close>

definition index_m2 :: "'a list \<Rightarrow> error + 'a" where
  "index_m2 xs = (if length xs < 2 then Inl IndexError else Inr (xs ! (length xs - 2)))"

text \<open>\<^verbatim>\<open>s[-3:]\<close>: the last three characters, or all of a shorter string.\<close>

definition last3 :: "string \<Rightarrow> string" where
  "last3 s = drop (length s - 3) s"

text \<open>Decimal rendering of integers, as \<^verbatim>\<open>str(n)\<close> and \<^verbatim>\<open>'{}'.format(n)\<close> give it.\<close>

definition digit_char :: "nat \<Rightarrow> char" where
  "digit_char d = ''0123456789'' ! d"

fun str_nat :: "nat \<Rightarrow> string" where
  "str_nat n = (if n < 10 then [digit_char n] else str_nat (n div 10) @ [digit_char (n mod 10)])"

declare str_nat.simps [simp del]

definition str_int :: "int \<Rightarrow> string" where
  "str_int i = (if i < 0 then CHR ''-'' # str_nat (nat (- i)) else str_nat (nat i))"

text \<open>
  \<^verbatim>\<open>'{:.0f}'.format(v)\<close>: a number is rendered with no decimals (the resource fields are
  whole numbers of MB and minutes here); a string argument raises
  \<^verbatim>\<open>ValueError: Unknown format code 'f' for object of type 'str'\<close>. Python converts an
  integer to a double before formatting it, so the digits agree with \<open>str_int\<close> for values
  of magnitude up to \<open>2 ^ 53\<close>; the model is meant for that range.
\<close>

definition format_0f_num :: "int \<Rightarrow> string" where
  "format_0f_num v = str_int v"

definition format_0f_str :: "string \<Rightarrow> error + string" where
  "format_0f_str s = Inl ValueError"

text \<open>
  \<^verbatim>\<open>"%02d" % x\<close> for a float \<open>x = a / b\<close> with \<open>b > 0\<close>: the quotient is truncated towards
  zero, then padded with zeros to two characters (a negative number already has two).
\<close>

definition trunc_div :: "int \<Rightarrow> int \<Rightarrow> int" where
  "trunc_div a b = (if a < 0 then - ((- a) div b) else a div b)"

definition format_02d :: "int \<Rightarrow> string" where
  "format_02d v = (if 0 \<le> v \<and> v < 10 then CHR ''0'' # str_int v else str_int v)"

text \<open>\<^verbatim>\<open>os.path.join(a, b)\<close> on POSIX.\<close>

definition path_join :: "string \<Rightarrow> string \<Rightarrow> string" where
  "path_join a b =
     (if b \<noteq> [] \<and> hd b = CHR ''/'' then b
      else if a = [] \<or> last a = CHR ''/'' then a @ b
      else a @ ''/'' @ b)"

section \<open>The resource configuration and the command lines\<close>

text \<open>
  The \<^verbatim>\<open>mpi\<close> ParameterSet. \<^verbatim>\<open>byslot\<close>, \<^verbatim>\<open>hostfile\<close> and \<^verbatim>\<open>directory\<close> are looked up with
  \<^verbatim>\<open>'key' in mpirun_par\<close> first, so they may be absent; the other fields are read directly.
  \<^verbatim>\<open>get_context()\<close> is \<^verbatim>\<open>'mpi'\<close>, \<^verbatim>\<open>'mpi:slurm'\<close> or \<^verbatim>\<open>'mpi:torque'\<close>.
\<close>

record mpirun_par =
  get_context :: string
  np :: int
  byslot :: "bool option"
  python :: string
  hostfile :: "string option"
  directory :: "string option"
  memory :: int
  time :: int
  partition :: string
  nodes :: int
  email :: string
  alerts :: string
  jobname :: string

definition backend_tag :: "mpirun_par \<Rightarrow> string" where
  "backend_tag par = last (py_split CHR '':'' (get_context par))"

definition byslot_flag :: "mpirun_par \<Rightarrow> string" where
  "byslot_flag par = (if byslot par = Some True then ''--byslot'' else '''')"

definition hostfile_flag :: "mpirun_par \<Rightarrow> string" where
  "hostfile_flag par =
     (case hostfile par of
        None \<Rightarrow> ''''
      | Some h \<Rightarrow> if h \<noteq> [] then ''--hostfile '' @ h else '''')"

text \<open>
  \<^verbatim>\<open>pkg\<close> is the directory two levels above the module file
  (\<^verbatim>\<open>os.path.split(os.path.split(os.path.abspath(__file__))[0])[0]\<close>).
\<close>

definition mpirun_loc :: "string \<Rightarrow> string \<Rightarrow> string \<Rightarrow> string" where
  "mpirun_loc pkg script_dir script = path_join (path_join pkg script_dir) script"

definition mpi_cmd :: "mpirun_par \<Rightarrow> string \<Rightarrow> string \<Rightarrow> string" where
  "mpi_cmd par loc args =
     ''mpiexec -np '' @ str_int (np par) @ '' '' @ hostfile_flag par @ '' '' @ byslot_flag par
       @ '' '' @ python par @ '' '' @ loc @ '' '' @ args"

definition slurm_memory :: "mpirun_par \<Rightarrow> string" where
  "slurm_memory par = (if memory par = 0 then '''' else ''--mem='' @ format_0f_num (memory par))"

definition slurm_time :: "mpirun_par \<Rightarrow> string" where
  "slurm_time par = (if time par = 0 then '''' else ''--time='' @ format_0f_num (time par))"

definition slurm_partition :: "mpirun_par \<Rightarrow> error + string" where
  "slurm_partition par =
     (if partition par = [] then Inr ''''
      else (case format_0f_str (partition par) of
              Inl e \<Rightarrow> Inl e
            | Inr s \<Rightarrow> Inr (''--partition='' @ s)))"

definition slurm_cmd :: "mpirun_par \<Rightarrow> string \<Rightarrow> string \<Rightarrow> error + string" where
  "slurm_cmd par loc args =
     (case slurm_partition par of
        Inl e \<Rightarrow> Inl e
      | Inr part \<Rightarrow>
          Inr (''srun '' @ slurm_time par @ '' '' @ slurm_memory par @ '' '' @ part
                @ '' mpirun -np '' @ str_int (np par) @ '' '' @ hostfile_flag par @ '' ''
                @ byslot_flag par @ '' '' @ python par @ '' '' @ loc @ '' '' @ args))"

text \<open>
  Torque. \<^verbatim>\<open>dt.total_seconds()\<close> is \<open>60 * time\<close>; the three \<^verbatim>\<open>%02d\<close> arguments are
  \<^verbatim>\<open>total/3600\<close>, \<^verbatim>\<open>total%3600/60\<close> and \<^verbatim>\<open>total%60\<close>. The local \<^verbatim>\<open>memory\<close> is computed
  (\<open>torque_memory\<close>) but the command template has no \<^verbatim>\<open>{memory}\<close> field.
  \<^verbatim>\<open>datetime.timedelta(minutes=time)\<close> raises OverflowError beyond 999999999 days; the
  model is meant for wall times within that range.
\<close>

definition torque_memory :: "mpirun_par \<Rightarrow> string" where
  "torque_memory par =
     (if memory par \<noteq> 0 then '',mppmem='' @ format_0f_num (memory par) @ ''M'' else '''')"

definition torque_time :: "mpirun_par \<Rightarrow> string" where
  "torque_time par =
     (let total = 60 * time par
      in format_02d (trunc_div total 3600) @ '':'' @ format_02d (trunc_div (total mod 3600) 60)
           @ '':'' @ format_02d (total mod 60))"

definition torque_cmd :: "mpirun_par \<Rightarrow> string \<Rightarrow> string \<Rightarrow> string" where
  "torque_cmd par loc args =
     (let mem = torque_memory par;
          walltime = torque_time par;
          mail = email par;
          cmd = ''echo \"mpirun '' @ python par @ '' '' @ loc @ '' '' @ args @ ''\" ''
                  @ ''| qsub -V -l nodes='' @ str_int (nodes par) @ '',walltime='' @ walltime;
          cmd1 = (if mail \<noteq> []
                  then (let c = cmd @ '' -M '' @ mail
                        in if alerts par \<noteq> [] then c @ '' -m '' @ alerts par else c)
                  else cmd)
      in cmd1 @ '' -N '' @ jobname par)"

section \<open>Synthetic datasets and \<^verbatim>\<open>merge_synthetic\<close>\<close>

text \<open>
  A parameter set is an ordered dictionary (keys unique) with a context string. A value is
  a Python list, a string or a number; list elements are numbers or strings (the
  \<^verbatim>\<open>columns\<close> field lists field names). A body is represented by the parameter sets that
  \<^verbatim>\<open>body.walk_type(type='syn')\<close> yields, in order. Bodies live in a store, and a body
  is referred to by its address: \<^verbatim>\<open>merge_synthetic\<close> mutates the first body of its
  argument and returns that same reference. Distinct bodies share no parameter set and
  no list object.
\<close>

datatype atom = Num int | Str string

datatype pyval = VList "atom list" | VStr string | VNum int

record parset =
  pcontext :: string
  pitems :: "(string \<times> pyval) list"

type_synonym body = "parset list"

type_synonym store = "nat \<Rightarrow> body"

text \<open>
  \<^verbatim>\<open>key in v\<close>: membership in a list, substring of a string, TypeError on a number.
\<close>

fun py_in :: "string \<Rightarrow> pyval \<Rightarrow> error + bool" where
  "py_in key (VList xs) = Inr (Str key \<in> set xs)"
| "py_in key (VStr s) = Inr (sublist key s)"
| "py_in key (VNum n) = Inl TypeError"

text \<open>The test before \<^verbatim>\<open>continue\<close>: \<^verbatim>\<open>'columns' in parset and not key in parset['columns']\<close>.\<close>

definition excluded :: "parset \<Rightarrow> string \<Rightarrow> error + bool" where
  "excluded ps key =
     (case map_of (pitems ps) ''columns'' of
        None \<Rightarrow> Inr False
      | Some cols \<Rightarrow> (case py_in key cols of Inl e \<Rightarrow> Inl e | Inr b \<Rightarrow> Inr (\<not> b)))"

text \<open>
  \<^verbatim>\<open>iteration[0][key] += value\<close> for a list \<^verbatim>\<open>value\<close>: the lookup raises KeyError on a
  missing key, \<^verbatim>\<open>+=\<close> raises TypeError unless the primary's value is a list too.
\<close>

definition iadd_key :: "parset \<Rightarrow> string \<Rightarrow> atom list \<Rightarrow> error + parset" where
  "iadd_key pp key v =
     (case map_of (pitems pp) key of
        None \<Rightarrow> Inl KeyError
      | Some (VList w) \<Rightarrow> Inr (pp\<lparr>pitems := AList.update key (VList (w @ v)) (pitems pp)\<rparr>)
      | Some (VStr s) \<Rightarrow> Inl TypeError
      | Some (VNum n) \<Rightarrow> Inl TypeError)"

text \<open>The body of \<^verbatim>\<open>for key in parset\<close>, on the replica's and the primary's parameter set.\<close>

definition merge_key :: "parset \<Rightarrow> string \<Rightarrow> parset \<Rightarrow> error + parset" where
  "merge_key rp key pp =
     (case excluded rp key of
        Inl e \<Rightarrow> Inl e
      | Inr True \<Rightarrow> Inr pp
      | Inr False \<Rightarrow>
          (case map_of (pitems rp) key of
             None \<Rightarrow> Inl KeyError
           | Some (VList v) \<Rightarrow> iadd_key pp key v
           | Some (VStr s) \<Rightarrow> Inr pp
           | Some (VNum n) \<Rightarrow> Inr pp))"

text \<open>
  The three nested loops, on the store: \<open>p\<close> is the address of the primary, \<open>r\<close> of the
  current replica, \<open>i\<close> the position in the lockstep walk. Both parameter sets are read
  from the current store at every step. An exception leaves the store as it is then.
\<close>

fun merge_keys :: "nat \<Rightarrow> nat \<Rightarrow> nat \<Rightarrow> string list \<Rightarrow> store \<Rightarrow> (error \<times> store) + store" where
  "merge_keys p r i [] s = Inr s"
| "merge_keys p r i (key # keys) s =
     (case merge_key (s r ! i) key (s p ! i) of
        Inl e \<Rightarrow> Inl (e, s)
      | Inr pp \<Rightarrow> merge_keys p r i keys (s(p := (s p)[i := pp])))"

fun merge_replicas :: "nat \<Rightarrow> nat \<Rightarrow> nat list \<Rightarrow> store \<Rightarrow> (error \<times> store) + store" where
  "merge_replicas p i [] s = Inr s"
| "merge_replicas p i (r # rs) s =
     (if last3 (pcontext (s r ! i)) = ''syn''
      then (case merge_keys p r i (map fst (pitems (s r ! i))) s of
              Inl es \<Rightarrow> Inl es
            | Inr s' \<Rightarrow> merge_replicas p i rs s')
      else merge_replicas p i rs s)"

fun merge_iterations :: "nat \<Rightarrow> nat list \<Rightarrow> nat list \<Rightarrow> store \<Rightarrow> (error \<times> store) + store" where
  "merge_iterations p rs [] s = Inr s"
| "merge_iterations p rs (i # is) s =
     (case merge_replicas p i rs s of
        Inl es \<Rightarrow> Inl es
      | Inr s' \<Rightarrow> merge_iterations p rs is s')"

text \<open>\<^verbatim>\<open>zip(*iterators)\<close> stops with the shortest walk.\<close>

definition zip_length :: "store \<Rightarrow> nat \<Rightarrow> nat list \<Rightarrow> nat" where
  "zip_length s p rs = fold (\<lambda>r n. min n (length (s r))) rs (length (s p))"

definition merge_synthetic :: "store \<Rightarrow> nat list \<Rightarrow> (error \<times> store) + (nat \<times> store)" where
  "merge_synthetic s list_of_bodies =
     (case list_of_bodies of
        [] \<Rightarrow> Inl (IndexError, s)
      | p # rs \<Rightarrow>
          (case merge_iterations p rs [0 ..< zip_length s p rs] s of
             Inl es \<Rightarrow> Inl es
           | Inr s' \<Rightarrow> Inr (p, s')))"

section \<open>The outside world: shell, files, engine\<close>

text \<open>
  \<open>sh_call\<close> is the exit status \<^verbatim>\<open>subprocess.call\<close> returns for a command line;
  \<open>sh_output k cmd\<close> is what \<^verbatim>\<open>subprocess.check_output\<close> returns when \<open>cmd\<close> is the
  \<open>k\<close>-th command started (\<open>None\<close>: it raises). \<open>tmp_name dir k\<close> is the name
  \<^verbatim>\<open>NamedTemporaryFile\<close> gives the \<open>k\<close>-th file it creates in \<open>dir\<close>. \<open>dump_fails k\<close>
  says whether the \<open>k\<close>-th \<^verbatim>\<open>pickle.dump\<close> raises, and \<open>load_result\<close> is what unpickling
  the system file gives once the command has run. A started command leaves the set of
  files as it is (the worker writes its result into the system file).
\<close>

record os_env =
  sh_call :: "string \<Rightarrow> int"
  sh_output :: "nat \<Rightarrow> string \<Rightarrow> string option"
  tmp_name :: "string \<Rightarrow> nat \<Rightarrow> string"
  cwd :: string
  dump_fails :: "nat \<Rightarrow> bool"
  load_result :: "error + body"

record world =
  heap :: store
  brk :: nat
  files :: "string set"
  launched :: "string list"
  slept :: nat

definition run_call :: "os_env \<Rightarrow> string \<Rightarrow> world \<Rightarrow> int \<times> world" where
  "run_call env cmd w = (sh_call env cmd, w\<lparr>launched := launched w @ [cmd]\<rparr>)"

definition run_output :: "os_env \<Rightarrow> string \<Rightarrow> world \<Rightarrow> string option \<times> world" where
  "run_output env cmd w =
     (sh_output env (length (launched w)) cmd, w\<lparr>launched := launched w @ [cmd]\<rparr>)"

definition sleep :: "nat \<Rightarrow> world \<Rightarrow> world" where
  "sleep n w = w\<lparr>slept := slept w + n\<rparr>"

text \<open>\<^verbatim>\<open>output.split('\n')[-2].strip().split()[-2]\<close>\<close>

definition status_token :: "string \<Rightarrow> error + string" where
  "status_token output =
     (case index_m2 (py_split CHR 0x0A output) of
        Inl e \<Rightarrow> Inl e
      | Inr line \<Rightarrow> index_m2 (py_words (py_strip line)))"

text \<open>
  The \<^verbatim>\<open>while True\<close> loop of the Torque branch. It need not end: \<open>None\<close> is the run that
  polls forever.
\<close>

text \<open>
  The Torque branch also looks up \<^verbatim>\<open>utils.which('mpirun')\<close> and prints progress lines;
  neither is used for the command or the flag.
\<close>

partial_function (option) poll_loop :: "os_env \<Rightarrow> string \<Rightarrow> world \<Rightarrow> world option" where
  "poll_loop env jobid w =
     (case run_output env (''qstat -a '' @ jobid) w of
        (None, w1) \<Rightarrow> Some w1
      | (Some output, w1) \<Rightarrow>
          (case status_token output of
             Inl e \<Rightarrow> Some w1
           | Inr status \<Rightarrow>
               if status = ''C'' then Some w1 else poll_loop env jobid (sleep 5 w1)))"

definition torque_submit :: "os_env \<Rightarrow> string \<Rightarrow> world \<Rightarrow> (int \<times> world) option" where
  "torque_submit env cmd w =
     (case run_output env cmd (sleep 2 w) of
        (None, w1) \<Rightarrow> Some (1, w1)
      | (Some out, w1) \<Rightarrow>
          (let jobid = py_strip out;
               w2 = snd (run_output env (''showstart '' @ jobid) (sleep 5 w1))
           in case poll_loop env jobid w2 of
                None \<Rightarrow> None
              | Some w3 \<Rightarrow> Some (0, w3)))"

text \<open>
  \<^verbatim>\<open>construct_mpirun_command\<close>; \<open>dflt\<close> is \<^verbatim>\<open>ParameterSet(context='mpi')\<close>. With a context
  that is none of the three, \<^verbatim>\<open>flag\<close> is never bound and the \<^verbatim>\<open>return\<close> raises.
\<close>

definition construct_mpirun_command ::
  "string \<Rightarrow> mpirun_par \<Rightarrow> os_env \<Rightarrow> string \<Rightarrow> mpirun_par option \<Rightarrow> string \<Rightarrow> string \<Rightarrow> world
     \<Rightarrow> ((error + int \<times> string) \<times> world) option" where
  "construct_mpirun_command pkg dflt env script mpirun_par args script_dir w =
     (let par = (case mpirun_par of None \<Rightarrow> dflt | Some q \<Rightarrow> q);
          loc = mpirun_loc pkg script_dir script;
          tag = backend_tag par
      in if tag = ''mpi''
         then (case run_call env (mpi_cmd par loc args) w of
                 (flag, w1) \<Rightarrow> Some (Inr (flag, tag), w1))
         else if tag = ''slurm''
         then (case slurm_cmd par loc args of
                 Inl e \<Rightarrow> Some (Inl e, w)
               | Inr cmd \<Rightarrow> (case run_call env cmd w of (flag, w1) \<Rightarrow> Some (Inr (flag, tag), w1)))
         else if tag = ''torque''
         then (case torque_submit env (torque_cmd par loc args) w of
                 None \<Rightarrow> None
               | Some (flag, w1) \<Rightarrow> Some (Inr (flag, tag), w1))
         else Some (Inl UnboundLocalError, w))"

section \<open>The decorator \<^verbatim>\<open>mpirun\<close> and its \<^verbatim>\<open>do_run\<close>\<close>

text \<open>
  The physics engine and the decorated function are outside the module; each call takes
  the body and gives back the body it leaves, with a value or an exception.
  \<open>mesh\<close> is \<^verbatim>\<open>fix_mesh\<close> or \<^verbatim>\<open>init_mesh\<close>, whichever the system has;
  \<open>postprocess\<close> is the chain from \<^verbatim>\<open>bin_oversampling\<close> to \<^verbatim>\<open>postprocess(time=None)\<close>;
  \<open>fctn\<close> is the decorated function on the given \<^verbatim>\<open>args\<close> and \<^verbatim>\<open>kwargs\<close>.
\<close>

record 'o engine =
  fctn :: "body \<Rightarrow> (error + 'o) \<times> body"
  fctn_name :: string
  mesh :: "body \<Rightarrow> (error + unit) \<times> body"
  prepare_ltt :: "body \<Rightarrow> body"
  postprocess :: "body \<Rightarrow> (error + unit) \<times> body"
  default_mpi :: mpirun_par
  pkg_dir :: string

text \<open>
  The keyword arguments \<^verbatim>\<open>do_run\<close> looks at: \<^verbatim>\<open>mpi\<close> (absent or \<^verbatim>\<open>None\<close>, \<^verbatim>\<open>True\<close>, or
  a ParameterSet), whether \<^verbatim>\<open>params\<close> is given, whether the remaining keywords are
  accepted by \<^verbatim>\<open>ParameterSet(context='compute', **kwargs)\<close>, and \<^verbatim>\<open>ltt\<close>.
\<close>

datatype mpi_arg = MpiNone | MpiTrue | MpiPar mpirun_par

record call_kwargs =
  mpi :: mpi_arg
  params_given :: bool
  kwargs_valid :: bool
  ltt :: bool

datatype 'o outcome = Raised error | Returned "'o option"

definition engine_call ::
  "(body \<Rightarrow> (error + 'r) \<times> body) \<Rightarrow> nat \<Rightarrow> world \<Rightarrow> (error + 'r) \<times> world" where
  "engine_call f system w =
     (case f (heap w system) of (r, b) \<Rightarrow> (r, w\<lparr>heap := (heap w)(system := b)\<rparr>))"

text \<open>
  \<^verbatim>\<open>NamedTemporaryFile(delete=False, dir=direc)\<close>, \<^verbatim>\<open>pickle.dump\<close>, \<^verbatim>\<open>close\<close>: the file
  exists from its creation on, whether or not the dump succeeds.
\<close>

definition write_artifact :: "os_env \<Rightarrow> string \<Rightarrow> nat \<Rightarrow> world \<Rightarrow> (error + string) \<times> world" where
  "write_artifact env direc k w =
     (let name = tmp_name env direc k;
          w1 = w\<lparr>files := insert name (files w)\<rparr>
      in if dump_fails env k then (Inl PickleError, w1) else (Inr name, w1))"

text \<open>\<^verbatim>\<open>open(sys_file.name, 'r')\<close> and \<^verbatim>\<open>pickle.load\<close>: the result is a new body.\<close>

definition load_results :: "os_env \<Rightarrow> string \<Rightarrow> world \<Rightarrow> (error + nat) \<times> world" where
  "load_results env name w =
     (if name \<notin> files w then (Inl IOError, w)
      else (case load_result env of
              Inl e \<Rightarrow> (Inl e, w)
            | Inr b \<Rightarrow> (Inr (brk w), w\<lparr>heap := (heap w)(brk w := b), brk := Suc (brk w)\<rparr>)))"

definition unlink_if_file :: "string \<Rightarrow> world \<Rightarrow> world" where
  "unlink_if_file name w = (if name \<in> files w then w\<lparr>files := files w - {name}\<rparr> else w)"

text \<open>
  The body of the \<^verbatim>\<open>try\<close> statement of the distributed branch. It returns the names of
  the three files; an exception leaves through \<^verbatim>\<open>except: raise\<close>.
\<close>

definition try_block ::
  "'o engine \<Rightarrow> os_env \<Rightarrow> call_kwargs \<Rightarrow> mpirun_par \<Rightarrow> nat \<Rightarrow> world
     \<Rightarrow> ((error + string \<times> string \<times> string) \<times> world) option" where
  "try_block eng env kw par system w =
     (case engine_call (mesh eng) system w of
        (Inl e, w1) \<Rightarrow> Some (Inl e, w1)
      | (Inr u, w1) \<Rightarrow>
     (let w2 = (if ltt kw then w1\<lparr>heap := (heap w1)(system := prepare_ltt eng (heap w1 system))\<rparr>
                else w1);
          direc = (case directory par of
                     None \<Rightarrow> cwd env
                   | Some d \<Rightarrow> if d = [] then cwd env else d)
      in case write_artifact env direc 0 w2 of
        (Inl e, w3) \<Rightarrow> Some (Inl e, w3)
      | (Inr sys_file, w3) \<Rightarrow>
     (case write_artifact env direc 1 w3 of
        (Inl e, w4) \<Rightarrow> Some (Inl e, w4)
      | (Inr args_file, w4) \<Rightarrow>
     (case write_artifact env direc 2 w4 of
        (Inl e, w5) \<Rightarrow> Some (Inl e, w5)
      | (Inr kwargs_file, w5) \<Rightarrow>
     (let args = fctn_name eng @ '' '' @ sys_file @ '' '' @ args_file @ '' '' @ kwargs_file
      in case construct_mpirun_command (pkg_dir eng) (default_mpi eng) env ''mpirun.py''
                (Some par) args ''backend'' w5 of
        None \<Rightarrow> None
      | Some (Inl e, w6) \<Rightarrow> Some (Inl e, w6)
      | Some (Inr (flag, mpitype), w6) \<Rightarrow>
          if flag \<noteq> 0 then Some (Inl (SystemExit 1), w6)
          else (case load_results env sys_file w6 of
                  (Inl e, w7) \<Rightarrow> Some (Inl e, w7)
                | (Inr results, w7) \<Rightarrow>
                    (case merge_synthetic (heap w7) [system, results] of
                       Inl (e, s) \<Rightarrow> Some (Inl e, w7\<lparr>heap := s\<rparr>)
                     | Inr (b, s) \<Rightarrow>
                         Some (Inr (sys_file, args_file, kwargs_file), w7\<lparr>heap := s\<rparr>))))))))"

definition do_run ::
  "'o engine \<Rightarrow> os_env \<Rightarrow> call_kwargs \<Rightarrow> nat \<Rightarrow> world \<Rightarrow> ('o outcome \<times> world) option" where
  "do_run eng env kw system w =
     (case mpi kw of
        MpiNone \<Rightarrow>
          (case engine_call (mesh eng) system w of
             (Inl e, w1) \<Rightarrow> Some (Raised e, w1)
           | (Inr u, w1) \<Rightarrow>
               (case engine_call (fctn eng) system w1 of
                  (Inl e, w2) \<Rightarrow> Some (Raised e, w2)
                | (Inr output, w2) \<Rightarrow> Some (Returned (Some output), w2)))
      | _ \<Rightarrow>
          if \<not> params_given kw \<and> \<not> kwargs_valid kw then Some (Raised ComputeParamsError, w)
          else
            (let mpirun_par = (case mpi kw of MpiPar q \<Rightarrow> q | _ \<Rightarrow> default_mpi eng)
             in if np mpirun_par \<le> 1 then Some (Raised ValueError, w)
                else
                  (case try_block eng env kw mpirun_par system w of
                     None \<Rightarrow> None
                   | Some (Inl e, w1) \<Rightarrow> Some (Raised e, w1)
                   | Some (Inr (sys_file, args_file, kwargs_file), w1) \<Rightarrow>
                       (let w2 = unlink_if_file kwargs_file
                                   (unlink_if_file args_file (unlink_if_file sys_file w1))
                        in case engine_call (postprocess eng) system w2 of
                             (Inl e, w3) \<Rightarrow> Some (Raised e, w3)
                           | (Inr u, w3) \<Rightarrow> Some (Returned None, w3)))))"

section \<open>Specification-side helpers and example inputs\<close>

text \<open>\<^verbatim>\<open>sep.join(xs)\<close>, used to describe the text that the parsers take apart.\<close>

fun join_with :: "string \<Rightarrow> string list \<Rightarrow> string" where
  "join_with sep [] = []"
| "join_with sep [x] = x"
| "join_with sep (x # y # ys) = x @ sep @ join_with sep (y # ys)"

text \<open>
  A row of tokens, each but the last followed by its own separator: \<open>join_runs pre t\<close> is
  the tokens of \<open>pre\<close> with their separators, then the last token \<open>t\<close>.
\<close>

fun join_runs :: "(string \<times> string) list \<Rightarrow> string \<Rightarrow> string" where
  "join_runs [] t = t"
| "join_runs ((u, sep) # rest) t = u @ sep @ join_runs rest t"

text \<open>Concrete inputs on which the theorems below are instantiated.\<close>

abbreviation torque_par :: mpirun_par where
  "torque_par \<equiv> \<lparr>get_context = ''mpi:torque'', np = 4, byslot = None, python = ''python'',
     hostfile = None, directory = None, memory = 512, time = 90, partition = '''', nodes = 2,
     email = '''', alerts = ''abe'', jobname = ''''\<rparr>"

abbreviation qstat_running :: string where
  "qstat_running \<equiv> ''Job S Time\<newline>1234 R 00:10\<newline>''"

abbreviation qstat_complete :: string where
  "qstat_complete \<equiv> ''Job ID    S Time\<newline>'' @ '' 1234.host'' @ ''   '' @ ''user'' @ [CHR 0x09]
                       @ ''C'' @ ''  '' @ ''00:12'' @ ''  '' @ ''\<newline>''"

abbreviation torque_env :: os_env where
  "torque_env \<equiv> \<lparr>sh_call = (\<lambda>c. 0),
     sh_output = (\<lambda>k c. if k = 0 then Some ''1234.host\<newline>''
                       else if k = 2 then Some qstat_running
                       else if k = 3 then Some qstat_complete else None),
     tmp_name = (\<lambda>d k. d @ ''/tmp'' @ str_nat k), cwd = ''/home/user'',
     dump_fails = (\<lambda>k. False), load_result = Inl IOError\<rparr>"

abbreviation empty_world :: world where
  "empty_world \<equiv> \<lparr>heap = (\<lambda>a. []), brk = 0, files = {}, launched = [], slept = 0\<rparr>"

abbreviation slurm_par :: mpirun_par where
  "slurm_par \<equiv> \<lparr>get_context = ''mpi:slurm'', np = 4, byslot = None, python = ''python'',
     hostfile = None, directory = None, memory = 512, time = 90, partition = ''debug'', nodes = 2,
     email = '''', alerts = '''', jobname = ''''\<rparr>"

abbreviation local_par :: mpirun_par where
  "local_par \<equiv> \<lparr>get_context = ''mpi'', np = 4, byslot = None, python = ''python'',
     hostfile = None, directory = None, memory = 0, time = 0, partition = '''', nodes = 0,
     email = '''', alerts = '''', jobname = ''''\<rparr>"

abbreviation lc_parset :: "atom list \<Rightarrow> atom list \<Rightarrow> atom list \<Rightarrow> parset" where
  "lc_parset t f s \<equiv> \<lparr>pcontext = ''lcsyn'',
     pitems = [(''ref'', VStr ''lc01''), (''columns'', VList [Str ''time'', Str ''flux'']),
               (''time'', VList t), (''flux'', VList f), (''sigma'', VList s)]\<rparr>"

abbreviation run_engine :: "string engine" where
  "run_engine \<equiv> \<lparr>fctn = (\<lambda>b. (Inr ''done'', b)), fctn_name = ''compute'',
     mesh = (\<lambda>b. (Inr (), b)), prepare_ltt = (\<lambda>b. b), postprocess = (\<lambda>b. (Inr (), b)),
     default_mpi = local_par, pkg_dir = ''/pkg''\<rparr>"

abbreviation run_env :: "int \<Rightarrow> os_env" where
  "run_env flag \<equiv> \<lparr>sh_call = (\<lambda>c. flag), sh_output = (\<lambda>k c. None),
     tmp_name = (\<lambda>d k. d @ (if k = 0 then ''/tmpA'' else if k = 1 then ''/tmpB'' else ''/tmpC'')),
     cwd = ''/w'', dump_fails = (\<lambda>k. False),
     load_result = Inr [lc_parset [Num 2, Num 3] [Num 12, Num 13] [Num 1]]\<rparr>"

abbreviation run_world :: world where
  "run_world \<equiv> \<lparr>heap = (\<lambda>a. [])(0 := [lc_parset [Num 0, Num 1] [Num 10, Num 11] [Num 1]]),
     brk = 1, files = {}, launched = [], slept = 0\<rparr>"

abbreviation run_kwargs :: "mpi_arg \<Rightarrow> call_kwargs" where
  "run_kwargs m \<equiv> \<lparr>mpi = m, params_given = True, kwargs_valid = True, ltt = False\<rparr>"

text \<open>
  What a replica's parameter set appends under a key: the list it holds there, if the
  key passes the \<^verbatim>\<open>columns\<close> test; \<open>None\<close> when it appends nothing.
\<close>

definition contribution :: "parset \<Rightarrow> string \<Rightarrow> atom list option" where
  "contribution rp key =
     (case excluded rp key of
        Inr False \<Rightarrow> (case map_of (pitems rp) key of Some (VList x) \<Rightarrow> Some x | _ \<Rightarrow> None)
      | _ \<Rightarrow> None)"

text \<open>
  A looked-up value after one append.
\<close>

fun extend_value :: "pyval option \<Rightarrow> atom list option \<Rightarrow> pyval option" where
  "extend_value (Some (VList w)) (Some x) = Some (VList (w @ x))"
| "extend_value v c = v"

text \<open>
  The loop over the keys on the two parameter sets alone, for a replica that is a
  different body from the primary (lemma \<open>merge_keys_fold\<close>).
\<close>

fun fold_keys :: "parset \<Rightarrow> string list \<Rightarrow> parset \<Rightarrow> (error \<times> parset) + parset" where
  "fold_keys rp [] pp = Inr pp"
| "fold_keys rp (key # keys) pp =
     (case merge_key rp key pp of
        Inl e \<Rightarrow> Inl (e, pp)
      | Inr pp' \<Rightarrow> fold_keys rp keys pp')"

text \<open>
  The loop over the replicas, likewise on the parameter sets at one position.
\<close>

fun replicas_fold :: "parset list \<Rightarrow> parset \<Rightarrow> (error \<times> parset) + parset" where
  "replicas_fold [] pp = Inr pp"
| "replicas_fold (rp # rps) pp =
     (if last3 (pcontext rp) = ''syn''
      then (case fold_keys rp (map fst (pitems rp)) pp of
              Inl x \<Rightarrow> Inl x
            | Inr pp' \<Rightarrow> replicas_fold rps pp')
      else replicas_fold rps pp)"

text \<open>
  Well-formed bodies: keys are unique within a parameter set, and a \<^verbatim>\<open>columns\<close> value is
  not a number.
\<close>

definition columns_ok :: "parset \<Rightarrow> bool" where
  "columns_ok ps = (case map_of (pitems ps) ''columns'' of Some (VNum n) \<Rightarrow> False | _ \<Rightarrow> True)"

definition wf_body :: "body \<Rightarrow> bool" where
  "wf_body b = list_all (\<lambda>ps. distinct (map fst (pitems ps)) \<and> columns_ok ps) b"

text \<open>
  The list a parameter set holds under a key (empty when the value is no list), and
  whether a looked-up value is a list.
\<close>

definition list_at :: "parset \<Rightarrow> string \<Rightarrow> atom list" where
  "list_at ps key = (case map_of (pitems ps) key of Some (VList x) \<Rightarrow> x | _ \<Rightarrow> [])"

definition is_list :: "pyval option \<Rightarrow> bool" where
  "is_list v = (case v of Some (VList x) \<Rightarrow> True | _ \<Rightarrow> False)"

text \<open>
  Merge-eligible fields, as the specification words them: the fields of a synthetic
  dataset (context ending in \<^verbatim>\<open>syn\<close>) that its \<^verbatim>\<open>columns\<close> field lists, and every field when
  it has no \<^verbatim>\<open>columns\<close> field. This is written from the specification, not from the
  test in the loop; lemma \<open>excluded_merge_eligible\<close> relates the two.
\<close>

definition merge_eligible :: "parset \<Rightarrow> string \<Rightarrow> bool" where
  "merge_eligible ps key =
     (last3 (pcontext ps) = ''syn''
      \<and> (case map_of (pitems ps) ''columns'' of
            None \<Rightarrow> True
          | Some (VList cols) \<Rightarrow> Str key \<in> set cols
          | Some (VStr c) \<Rightarrow> sublist key c
          | Some (VNum n) \<Rightarrow> False))"

text \<open>
  Structurally identical parameter sets: the same context, the same keys in the same
  order, the same \<^verbatim>\<open>columns\<close> value, and a list under a key in one exactly when there is a
  list under it in the other. The lists themselves, their lengths, and the other values
  are each parameter set's own.
\<close>

definition same_structure :: "parset \<Rightarrow> parset \<Rightarrow> bool" where
  "same_structure a b =
     (pcontext a = pcontext b \<and> map fst (pitems a) = map fst (pitems b)
      \<and> map_of (pitems a) ''columns'' = map_of (pitems b) ''columns''
      \<and> (\<forall>k. is_list (map_of (pitems a) k) = is_list (map_of (pitems b) k)))"

text \<open>
  \<open>pp\<close> is \<open>pp0\<close> with \<open>acc key\<close> added at the end of every merge-eligible list.
\<close>

definition appended :: "(string \<Rightarrow> atom list) \<Rightarrow> parset \<Rightarrow> parset \<Rightarrow> bool" where
  "appended acc pp0 pp =
     (pcontext pp = pcontext pp0 \<and> map fst (pitems pp) = map fst (pitems pp0)
      \<and> (\<forall>k. map_of (pitems pp) k =
             (case map_of (pitems pp0) k of
                Some (VList x) \<Rightarrow> Some (VList (if merge_eligible pp0 k then x @ acc k else x))
              | v \<Rightarrow> v)))"




text \<open>
  More example inputs.
\<close>

abbreviation nocol_parset :: "string \<Rightarrow> atom list \<Rightarrow> atom list \<Rightarrow> parset" where
  "nocol_parset ref t f \<equiv> \<lparr>pcontext = ''lcsyn'',
     pitems = [(''ref'', VStr ref), (''time'', VList t), (''flux'', VList f)]\<rparr>"


abbreviation two_store :: "body \<Rightarrow> body \<Rightarrow> store" where
  "two_store a b \<equiv> (\<lambda>x. [])(0 := a, 1 := b)"

abbreviation three_store :: store where
  "three_store \<equiv> (\<lambda>x. [])(0 := [lc_parset [Num 0, Num 1] [Num 10, Num 11] [Num 1]],
                           1 := [lc_parset [Num 2, Num 3] [Num 12, Num 13] [Num 7]],
                           2 := [lc_parset [Num 4, Num 5] [Num 14, Num 15] [Num 8]])"

abbreviation three_merged :: store where
  "three_merged \<equiv> (\<lambda>x. [])(0 := [lc_parset [Num 0, Num 1, Num 2, Num 3, Num 4, Num 5]
                                      [Num 10, Num 11, Num 12, Num 13, Num 14, Num 15] [Num 1]],
                            1 := [lc_parset [Num 2, Num 3] [Num 12, Num 13] [Num 7]],
                            2 := [lc_parset [Num 4, Num 5] [Num 14, Num 15] [Num 8]])"

section \<open>Parsing the status output\<close>

lemma py_split_no_sep: "c \<notin> set l \<Longrightarrow> py_split c (l @ c # rest) = l # py_split c rest"
  by (induction l) auto

lemma py_split_no_sep_end: "c \<notin> set l \<Longrightarrow> py_split c l = [l]"
  by (induction l) auto

lemma py_split_join:
  "\<forall>l\<in>set (x # xs). c \<notin> set l \<Longrightarrow> py_split c (join_with [c] (x # xs)) = x # xs"
proof (induction xs arbitrary: x)
  case Nil
  then show ?case by (simp add: py_split_no_sep_end)
next
  case (Cons y ys)
  then show ?case by (simp add: py_split_no_sep)
qed

lemma words_token: "\<forall>x\<in>set t. \<not> is_space x \<Longrightarrow> py_words_from cur (t @ xs) = py_words_from (cur @ t) xs"
  by (induction t arbitrary: cur) auto

lemma dropWhile_id: "m \<noteq> [] \<Longrightarrow> \<not> P (hd m) \<Longrightarrow> dropWhile P m = m"
  by (cases m) simp_all

lemma strip_padded:
  assumes "\<forall>x\<in>set lead. is_space x" "\<forall>x\<in>set trail. is_space x"
    and "m \<noteq> []" "\<not> is_space (hd m)" "\<not> is_space (last m)"
  shows "py_strip (lead @ m @ trail) = m"
proof -
  have 1: "dropWhile is_space (lead @ m @ trail) = m @ trail"
    using assms(1,3,4) by (simp add: dropWhile_id)
  have "dropWhile is_space (rev trail @ rev m) = dropWhile is_space (rev m)"
    by (rule dropWhile_append2) (use assms(2) in auto)
  also have "\<dots> = rev m" using assms(3,5) by (simp add: dropWhile_id hd_rev)
  finally have 2: "dropWhile is_space (rev (m @ trail)) = rev m" by simp
  show ?thesis unfolding py_strip_def 1 2 by simp
qed

lemma words_spaces:
  "\<forall>x\<in>set sep. is_space x \<Longrightarrow> py_words_from [] (sep @ xs) = py_words_from [] xs"
  by (induction sep) simp_all

lemma words_sep:
  assumes "cur \<noteq> []" and "sep \<noteq> []" and "\<forall>x\<in>set sep. is_space x"
  shows "py_words_from cur (sep @ xs) = cur # py_words_from [] xs"
proof (cases sep)
  case Nil
  then show ?thesis using assms(2) by simp
next
  case (Cons c sep')
  then have "is_space c" "\<forall>x\<in>set sep'. is_space x" using assms(3) by simp_all
  then show ?thesis using Cons assms(1) words_spaces[of sep' xs] by simp
qed

lemma words_runs:
  assumes "\<forall>(u, sep)\<in>set pre. u \<noteq> [] \<and> (\<forall>x\<in>set u. \<not> is_space x)
                           \<and> sep \<noteq> [] \<and> (\<forall>x\<in>set sep. is_space x)"
    and "t \<noteq> []" and "\<forall>x\<in>set t. \<not> is_space x"
  shows "py_words_from [] (join_runs pre t) = map fst pre @ [t]"
  using assms(1)
proof (induction pre)
  case Nil
  show ?case using words_token[of t "[]" "[]"] assms(2,3) by simp
next
  case (Cons a pre)
  obtain u sep where a: "a = (u, sep)" by (cases a)
  from Cons.prems a have u: "u \<noteq> []" "\<forall>x\<in>set u. \<not> is_space x"
    and s: "sep \<noteq> []" "\<forall>x\<in>set sep. is_space x" by simp_all
  have "py_words_from [] (u @ sep @ join_runs pre t) = py_words_from u (sep @ join_runs pre t)"
    using words_token[OF u(2), of "[]"] by simp
  also have "\<dots> = u # py_words_from [] (join_runs pre t)"
    by (rule words_sep[OF u(1) s])
  also have "\<dots> = u # map fst pre @ [t]" using Cons by simp
  finally show ?case by (simp add: a)
qed

lemma join_runs_ne: "t \<noteq> [] \<Longrightarrow> join_runs pre t \<noteq> []"
  by (induction pre t rule: join_runs.induct) simp_all

lemma join_runs_last: "t \<noteq> [] \<Longrightarrow> last (join_runs pre t) = last t"
  by (induction pre t rule: join_runs.induct) (simp_all add: join_runs_ne)

lemma join_runs_hd:
  assumes "\<forall>(u, sep)\<in>set pre. u \<noteq> [] \<and> (\<forall>x\<in>set u. \<not> is_space x)"
    and "t \<noteq> []" and "\<forall>x\<in>set t. \<not> is_space x"
  shows "\<not> is_space (hd (join_runs pre t))"
proof (cases pre)
  case Nil
  then show ?thesis using assms(2,3) by simp
next
  case (Cons a rest)
  obtain u sep where a: "a = (u, sep)" by (cases a)
  with Cons assms(1) have "u \<noteq> []" "\<forall>x\<in>set u. \<not> is_space x" by simp_all
  then show ?thesis using Cons a by simp
qed

lemma status_token_spec:
  assumes lines: "\<forall>l\<in>set (before @ [lead @ join_runs (pre @ [(tok, sep)]) t2 @ trail, lastl]).
                    CHR 0x0A \<notin> set l"
    and pads: "\<forall>x\<in>set (lead @ trail). is_space x"
    and toks: "\<forall>(u, s)\<in>set (pre @ [(tok, sep)]). u \<noteq> [] \<and> (\<forall>x\<in>set u. \<not> is_space x)
                           \<and> s \<noteq> [] \<and> (\<forall>x\<in>set s. is_space x)"
    and t2: "t2 \<noteq> []" "\<forall>x\<in>set t2. \<not> is_space x"
  shows "status_token (join_with [CHR 0x0A]
           (before @ [lead @ join_runs (pre @ [(tok, sep)]) t2 @ trail, lastl])) = Inr tok"
proof -
  let ?m = "join_runs (pre @ [(tok, sep)]) t2"
  let ?line = "lead @ ?m @ trail"
  obtain x xs where bx: "before @ [?line, lastl] = x # xs" by (cases before) auto
  have sp: "py_split CHR 0x0A (join_with [CHR 0x0A] (before @ [?line, lastl])) = before @ [?line, lastl]"
    unfolding bx using lines py_split_join[of x xs "CHR 0x0A"] unfolding bx by simp
  have i1: "index_m2 (before @ [?line, lastl]) = Inr ?line"
    by (simp add: index_m2_def nth_append)
  have w: "py_words_from [] ?m = map fst (pre @ [(tok, sep)]) @ [t2]"
    by (rule words_runs[OF toks t2])
  have toks': "\<forall>(u, s)\<in>set (pre @ [(tok, sep)]). u \<noteq> [] \<and> (\<forall>x\<in>set u. \<not> is_space x)"
    using toks by fastforce
  have h: "\<not> is_space (hd ?m)" by (rule join_runs_hd[OF toks' t2])
  have l: "\<not> is_space (last ?m)" using join_runs_last[OF t2(1), of "pre @ [(tok, sep)]"] t2 by simp
  have st: "py_strip ?line = ?m"
    by (rule strip_padded) (use pads h l join_runs_ne[OF t2(1)] in simp_all)
  have i2: "index_m2 (map fst (pre @ [(tok, sep)]) @ [t2]) = Inr tok"
    by (simp add: index_m2_def nth_append)
  show ?thesis
    unfolding status_token_def sp i1 by (simp only: sum.case st py_words_def w i2)
qed

section \<open>The Torque polling loop\<close>

lemma poll_loop_run:
  assumes "\<forall>j<n. \<exists>out tok. sh_output env (length (launched w) + j) (''qstat -a '' @ jobid) = Some out
                 \<and> status_token out = Inr tok \<and> tok \<noteq> ''C''"
    and "sh_output env (length (launched w) + n) (''qstat -a '' @ jobid) = None
         \<or> (\<exists>out. sh_output env (length (launched w) + n) (''qstat -a '' @ jobid) = Some out
               \<and> (status_token out = Inr ''C'' \<or> (\<exists>e. status_token out = Inl e)))"
  shows "poll_loop env jobid w =
           Some (w\<lparr>launched := launched w @ replicate (Suc n) (''qstat -a '' @ jobid),
                   slept := slept w + 5 * n\<rparr>)"
  using assms
proof (induction n arbitrary: w)
  case 0
  then show ?case
    by (subst poll_loop.simps) (auto simp add: run_output_def)
next
  case (Suc n)
  let ?cmd = "''qstat -a '' @ jobid"
  let ?w1 = "sleep 5 (w\<lparr>launched := launched w @ [?cmd]\<rparr>)"
  from Suc.prems(1) obtain out tok where
    o: "sh_output env (length (launched w)) ?cmd = Some out" "status_token out = Inr tok" "tok \<noteq> ''C''"
    by force
  have step: "poll_loop env jobid w = poll_loop env jobid ?w1"
    using o by (subst poll_loop.simps) (simp add: run_output_def)
  have a1: "\<forall>j<n. \<exists>out tok. sh_output env (length (launched ?w1) + j) ?cmd = Some out
                 \<and> status_token out = Inr tok \<and> tok \<noteq> ''C''"
  proof (intro allI impI)
    fix j assume "j < n"
    then have "Suc j < Suc n" by simp
    from Suc.prems(1)[rule_format, OF this]
    show "\<exists>out tok. sh_output env (length (launched ?w1) + j) ?cmd = Some out
                 \<and> status_token out = Inr tok \<and> tok \<noteq> ''C''"
      by (simp add: sleep_def)
  qed
  have a2: "sh_output env (length (launched ?w1) + n) ?cmd = None
         \<or> (\<exists>out. sh_output env (length (launched ?w1) + n) ?cmd = Some out
               \<and> (status_token out = Inr ''C'' \<or> (\<exists>e. status_token out = Inl e)))"
    using Suc.prems(2) by (simp add: sleep_def)
  show ?case
    unfolding step Suc.IH[OF a1 a2]
    by (simp add: sleep_def replicate_append_same)
qed

text \<open>
  Claim C2. In the Torque branch, once \<^verbatim>\<open>qsub\<close> has printed a job identifier, the loop polls
  \<^verbatim>\<open>qstat -a <jobid>\<close>: while the status token is there and is not \<^verbatim>\<open>'C'\<close> it sleeps 5 and
  polls again (\<open>n\<close> such polls), and the first poll that raises, cannot be parsed, or has
  the token \<^verbatim>\<open>'C'\<close> ends the loop with no further poll; the submitter then returns flag 0
  with the tag \<^verbatim>\<open>'torque'\<close>. The status token of an output is the second-to-last token
  of its second-to-last line, for any row of tokens separated by non-empty runs of
  whitespace (blanks, tabs) and padded with whitespace at both ends.
\<close>

theorem torque_polling:
  assumes tag: "backend_tag par = ''torque''"
    and cmd: "cmd = torque_cmd par (mpirun_loc pkg script_dir script) args"
    and qsub: "sh_output env (length (launched w)) cmd = Some out"
    and jobid: "jobid = py_strip out"
    and polls: "\<forall>j<n. \<exists>output status.
                  sh_output env (length (launched w) + 2 + j) (''qstat -a '' @ jobid) = Some output
                  \<and> status_token output = Inr status \<and> status \<noteq> ''C''"
    and final: "sh_output env (length (launched w) + 2 + n) (''qstat -a '' @ jobid) = None
                \<or> (\<exists>output. sh_output env (length (launched w) + 2 + n) (''qstat -a '' @ jobid)
                                = Some output
                      \<and> (status_token output = Inr ''C'' \<or> (\<exists>e. status_token output = Inl e)))"
  shows "construct_mpirun_command pkg dflt env script (Some par) args script_dir w =
           Some (Inr (0, ''torque''),
                 w\<lparr>launched := launched w @ [cmd, ''showstart '' @ jobid]
                                  @ replicate (Suc n) (''qstat -a '' @ jobid),
                   slept := slept w + 7 + 5 * n\<rparr>)
         \<and> (\<forall>before lastl lead pre tok sep t2 trail.
               (\<forall>l\<in>set (before @ [lead @ join_runs (pre @ [(tok, sep)]) t2 @ trail, lastl]).
                   CHR 0x0A \<notin> set l)
               \<and> (\<forall>x\<in>set (lead @ trail). is_space x)
               \<and> (\<forall>(u, s)\<in>set (pre @ [(tok, sep)]).
                     u \<noteq> [] \<and> (\<forall>x\<in>set u. \<not> is_space x) \<and> s \<noteq> [] \<and> (\<forall>x\<in>set s. is_space x))
               \<and> t2 \<noteq> [] \<and> (\<forall>x\<in>set t2. \<not> is_space x)
               \<longrightarrow> status_token (join_with [CHR 0x0A]
                     (before @ [lead @ join_runs (pre @ [(tok, sep)]) t2 @ trail, lastl])) = Inr tok)"
proof
  let ?q = "''qstat -a '' @ jobid"
  let ?w1 = "w\<lparr>slept := slept w + 2, launched := launched w @ [cmd]\<rparr>"
  let ?w2 = "w\<lparr>slept := slept w + 7, launched := launched w @ [cmd, ''showstart '' @ jobid]\<rparr>"
  let ?w3 = "w\<lparr>launched := launched w @ [cmd, ''showstart '' @ jobid] @ replicate (Suc n) ?q,
                slept := slept w + 7 + 5 * n\<rparr>"
  have ro: "run_output env cmd (sleep 2 w) = (Some out, ?w1)"
    using qsub by (simp add: run_output_def sleep_def)
  let ?W2 = "snd (run_output env (''showstart '' @ jobid) (sleep 5 ?w1))"
  have w2: "?W2 = ?w2"
    by (simp add: run_output_def sleep_def)
  have len: "length (launched ?w2) = length (launched w) + 2" by simp
  have "poll_loop env jobid ?w2 =
      Some (?w2\<lparr>launched := launched ?w2 @ replicate (Suc n) ?q, slept := slept ?w2 + 5 * n\<rparr>)"
    by (rule poll_loop_run) (use polls final in \<open>simp_all only: len\<close>)
  also have "?w2\<lparr>launched := launched ?w2 @ replicate (Suc n) ?q, slept := slept ?w2 + 5 * n\<rparr> = ?w3"
    by simp
  finally have p: "poll_loop env jobid ?W2 = Some ?w3" unfolding w2 .
  have ts: "torque_submit env cmd w = Some (0, ?w3)"
    unfolding torque_submit_def ro jobid[symmetric] Let_def prod.case option.case p ..
  show "construct_mpirun_command pkg dflt env script (Some par) args script_dir w =
           Some (Inr (0, ''torque''),
                 w\<lparr>launched := launched w @ [cmd, ''showstart '' @ jobid]
                                  @ replicate (Suc n) (''qstat -a '' @ jobid),
                   slept := slept w + 7 + 5 * n\<rparr>)"
    unfolding construct_mpirun_command_def Let_def
    using tag ts[unfolded cmd] by (simp add: cmd)
next
  show "\<forall>before lastl lead pre tok sep t2 trail.
               (\<forall>l\<in>set (before @ [lead @ join_runs (pre @ [(tok, sep)]) t2 @ trail, lastl]).
                   CHR 0x0A \<notin> set l)
               \<and> (\<forall>x\<in>set (lead @ trail). is_space x)
               \<and> (\<forall>(u, s)\<in>set (pre @ [(tok, sep)]).
                     u \<noteq> [] \<and> (\<forall>x\<in>set u. \<not> is_space x) \<and> s \<noteq> [] \<and> (\<forall>x\<in>set s. is_space x))
               \<and> t2 \<noteq> [] \<and> (\<forall>x\<in>set t2. \<not> is_space x)
               \<longrightarrow> status_token (join_with [CHR 0x0A]
                     (before @ [lead @ join_runs (pre @ [(tok, sep)]) t2 @ trail, lastl])) = Inr tok"
    by (intro allI impI) (elim conjE, rule status_token_spec, assumption+)
qed

lemma ev_tokens: "status_token qstat_running = Inr ''R''"
  by code_simp

lemma ev_cmd: "torque_cmd torque_par (mpirun_loc ''/pkg'' ''backend'' ''mpirun.py'') ''f a b c''
  = ''echo \"mpirun python /pkg/backend/mpirun.py f a b c\" | qsub -V -l nodes=2,walltime=01:30:00 -N ''"
  by code_simp

theorem torque_polling_witness:
  "construct_mpirun_command ''/pkg'' torque_par torque_env ''mpirun.py'' (Some torque_par)
       ''f a b c'' ''backend'' empty_world =
     Some (Inr (0, ''torque''),
           empty_world\<lparr>launched :=
              [''echo \"mpirun python /pkg/backend/mpirun.py f a b c\" | qsub -V -l nodes=2,walltime=01:30:00 -N '',
               ''showstart 1234.host'', ''qstat -a 1234.host'', ''qstat -a 1234.host''],
              slept := 12\<rparr>)
   \<and> status_token qstat_complete = Inr ''C''"
proof -
  note T = torque_polling[where par = torque_par and pkg = "''/pkg''" and script_dir = "''backend''"
      and script = "''mpirun.py''" and args = "''f a b c''" and env = torque_env
      and w = empty_world and out = "''1234.host\<newline>''" and jobid = "''1234.host''" and n = 1
      and dflt = torque_par, OF _ refl]
  have tag: "backend_tag torque_par = ''torque''" by (simp add: backend_tag_def)
  have jid: "''1234.host'' = py_strip ''1234.host\<newline>''" by (simp add: py_strip_def is_space_def)
  have qsub: "sh_output torque_env (length (launched empty_world))
      (torque_cmd torque_par (mpirun_loc ''/pkg'' ''backend'' ''mpirun.py'') ''f a b c'')
      = Some ''1234.host\<newline>''"
    by simp
  have polls: "\<forall>j<1. \<exists>output status.
      sh_output torque_env (length (launched empty_world) + 2 + j) (''qstat -a '' @ ''1234.host'')
        = Some output \<and> status_token output = Inr status \<and> status \<noteq> ''C''"
  proof (intro allI impI)
    fix j :: nat assume "j < 1"
    then have j: "j = 0" by simp
    show "\<exists>output status.
      sh_output torque_env (length (launched empty_world) + 2 + j) (''qstat -a '' @ ''1234.host'')
        = Some output \<and> status_token output = Inr status \<and> status \<noteq> ''C''"
      unfolding j by (rule exI[of _ qstat_running], rule exI[of _ "''R''"]) (simp add: ev_tokens)
  qed
  have S0: "status_token qstat_complete = Inr ''C''"
    by code_simp
  have final: "sh_output torque_env (length (launched empty_world) + 2 + 1) (''qstat -a '' @ ''1234.host'') = None
      \<or> (\<exists>output. sh_output torque_env (length (launched empty_world) + 2 + 1) (''qstat -a '' @ ''1234.host'')
              = Some output
            \<and> (status_token output = Inr ''C'' \<or> (\<exists>e. status_token output = Inl e)))"
    by (rule disjI2, rule exI[of _ qstat_complete]) (simp add: S0[simplified])
  note T1 = T[OF tag qsub jid polls final]
  have R: "construct_mpirun_command ''/pkg'' torque_par torque_env ''mpirun.py'' (Some torque_par)
       ''f a b c'' ''backend'' empty_world =
     Some (Inr (0, ''torque''),
           empty_world\<lparr>launched :=
              [''echo \"mpirun python /pkg/backend/mpirun.py f a b c\" | qsub -V -l nodes=2,walltime=01:30:00 -N '',
               ''showstart 1234.host'', ''qstat -a 1234.host'', ''qstat -a 1234.host''],
              slept := 12\<rparr>)"
    using T1[THEN conjunct1] unfolding ev_cmd by simp
  have S: "status_token qstat_complete = Inr ''C''"
    using T1[THEN conjunct2, rule_format,
        where before = "[''Job ID    S Time'']" and lastl = "[]" and lead = "'' ''"
          and pre = "[(''1234.host'', ''   ''), (''user'', [CHR 0x09])]"
          and tok = "''C''" and sep = "''  ''" and ?t2.0 = "''00:12''" and trail = "''  ''"]
    by (simp add: is_space_def)
  show ?thesis using R S by (rule conjI)
qed

section \<open>The command lines\<close>

text \<open>
  Claim C5. The Slurm line carries \<^verbatim>\<open>--time\<close> and \<^verbatim>\<open>--mem\<close> for the non-zero fields and no
  \<^verbatim>\<open>--partition\<close> for an empty partition, but a partition name is never rendered: the
  name is a string, it is formatted with \<^verbatim>\<open>{:.0f}\<close>, and the call raises ValueError before
  any command is started.
\<close>

theorem slurm_partition_name_raises:
  "slurm_cmd slurm_par (mpirun_loc ''/pkg'' ''backend'' ''mpirun.py'') ''f a b c'' = Inl ValueError
   \<and> construct_mpirun_command ''/pkg'' slurm_par torque_env ''mpirun.py'' (Some slurm_par)
         ''f a b c'' ''backend'' empty_world = Some (Inl ValueError, empty_world)
   \<and> slurm_cmd (slurm_par\<lparr>partition := ''''\<rparr>) (mpirun_loc ''/pkg'' ''backend'' ''mpirun.py'') ''f a b c''
       = Inr ''srun --time=90 --mem=512  mpirun -np 4   python /pkg/backend/mpirun.py f a b c''"
proof (intro conjI)
  show a: "slurm_cmd slurm_par (mpirun_loc ''/pkg'' ''backend'' ''mpirun.py'') ''f a b c'' = Inl ValueError"
    by code_simp
  have tag: "backend_tag slurm_par = ''slurm''" by code_simp
  show "construct_mpirun_command ''/pkg'' slurm_par torque_env ''mpirun.py'' (Some slurm_par)
         ''f a b c'' ''backend'' empty_world = Some (Inl ValueError, empty_world)"
    unfolding construct_mpirun_command_def Let_def option.case tag a by simp
  show "slurm_cmd (slurm_par\<lparr>partition := ''''\<rparr>) (mpirun_loc ''/pkg'' ''backend'' ''mpirun.py'') ''f a b c''
       = Inr ''srun --time=90 --mem=512  mpirun -np 4   python /pkg/backend/mpirun.py f a b c''"
    by code_simp
qed

text \<open>
  Claim C6. With \<^verbatim>\<open>time=90\<close> the Torque line has \<^verbatim>\<open>walltime=01:30:00\<close>. With \<^verbatim>\<open>memory=512\<close>
  the suffix \<^verbatim>\<open>,mppmem=512M\<close> is computed, but the submission line does not contain it:
  the template ends with the wall time.
\<close>

theorem torque_memory_not_rendered:
  "torque_memory (torque_par\<lparr>jobname := ''job''\<rparr>) = '',mppmem=512M''
   \<and> torque_cmd (torque_par\<lparr>jobname := ''job''\<rparr>) (mpirun_loc ''/pkg'' ''backend'' ''mpirun.py'') ''f a b c''
       = ''echo \"mpirun python /pkg/backend/mpirun.py f a b c\" | qsub -V -l nodes=2,walltime=01:30:00 -N job''"
  by code_simp

text \<open>
  Claim C7, as stated, fails: with no email address the alert flags are not passed
  although \<^verbatim>\<open>alerts\<close> is set, and \<^verbatim>\<open>-N\<close> is appended although \<^verbatim>\<open>jobname\<close> is empty.
\<close>

theorem torque_alert_needs_email_counterexample:
  "alerts torque_par \<noteq> [] \<and> jobname torque_par = []
   \<and> torque_cmd torque_par (mpirun_loc ''/pkg'' ''backend'' ''mpirun.py'') ''f a b c''
       = ''echo \"mpirun python /pkg/backend/mpirun.py f a b c\" | qsub -V -l nodes=2,walltime=01:30:00 -N ''"
  by code_simp

text \<open>
  Claim C7, amended. The Torque line is a part that does not depend on the email, alert
  and job-name fields, followed by \<^verbatim>\<open>-M <email>\<close> if the email is non-empty, then
  \<^verbatim>\<open>-m <alerts>\<close> if both the email and the alerts are non-empty, then always
  \<^verbatim>\<open>-N <jobname>\<close>.
\<close>

theorem torque_optional_flags:
  "\<exists>base. \<forall>e a j. torque_cmd (par\<lparr>email := e, alerts := a, jobname := j\<rparr>) loc args =
      base @ (if e = [] then [] else '' -M '' @ e @ (if a = [] then [] else '' -m '' @ a))
           @ '' -N '' @ j"
  by (rule exI[of _ "''echo \"mpirun '' @ python par @ '' '' @ loc @ '' '' @ args @ ''\" ''
                  @ ''| qsub -V -l nodes='' @ str_int (nodes par) @ '',walltime='' @ torque_time par"])
     (simp add: torque_cmd_def Let_def torque_time_def)

section \<open>The dispatch\<close>

lemma mpi_cmd_ev: "mpi_cmd local_par (mpirun_loc ''/pkg'' ''backend'' ''mpirun.py'') (''compute'' @ '' '' @ ''/w/tmpA'' @ '' '' @ ''/w/tmpB'' @ '' '' @ ''/w/tmpC'')
   = ''mpiexec -np 4   python /pkg/backend/mpirun.py compute /w/tmpA /w/tmpB /w/tmpC''"
  by code_simp

lemma local_tag: "backend_tag local_par = ''mpi''" by code_simp

text \<open>
  Claim C1. A dispatch whose three files are written and whose command exits with a non-zero
  flag raises SystemExit through \<^verbatim>\<open>except: raise\<close>; the three \<^verbatim>\<open>os.unlink\<close> calls after the
  \<^verbatim>\<open>try\<close> statement are not reached, and the three files are still there.
\<close>

theorem do_run_submission_failure_leaves_files:
  "do_run run_engine (run_env 1) (run_kwargs (MpiPar local_par)) 0 run_world =
     Some (Raised (SystemExit 1),
           run_world\<lparr>files := {''/w/tmpA'', ''/w/tmpB'', ''/w/tmpC''},
                     launched := [''mpiexec -np 4   python /pkg/backend/mpirun.py compute /w/tmpA /w/tmpB /w/tmpC'']\<rparr>)"
  unfolding do_run_def try_block_def
  by (simp add: engine_call_def write_artifact_def Let_def construct_mpirun_command_def local_tag
      run_call_def mpi_cmd_ev[simplified] insert_commute)


text \<open>
  Claim C4. A call with \<^verbatim>\<open>mpi\<close> given and a process count below two raises before anything
  is written or started: the world is unchanged. The exception is the ValueError of the
  \<^verbatim>\<open>np\<close> test, unless \<^verbatim>\<open>params\<close> is missing and the keywords are rejected, in which case
  it is that of the compute ParameterSet, raised one step earlier.
\<close>

theorem do_run_rejects_small_np:
  assumes "mpi kw \<noteq> MpiNone"
    and "np (case mpi kw of MpiPar q \<Rightarrow> q | _ \<Rightarrow> default_mpi eng) < 2"
  shows "do_run eng env kw system w =
           Some (Raised (if \<not> params_given kw \<and> \<not> kwargs_valid kw then ComputeParamsError
                         else ValueError), w)"
  using assms by (cases "mpi kw") (simp_all add: do_run_def)

theorem do_run_rejects_small_np_witness:
  "do_run run_engine (run_env 0) (run_kwargs (MpiPar (local_par\<lparr>np := 1\<rparr>))) 0 run_world =
     Some (Raised ValueError, run_world)"
  using do_run_rejects_small_np[of "run_kwargs (MpiPar (local_par\<lparr>np := 1\<rparr>))" run_engine
      "run_env 0" 0 run_world]
  by simp

lemma poll_loop_frame:
  assumes "poll_loop env jobid w = Some w'"
  shows "heap w' = heap w \<and> brk w' = brk w \<and> files w' = files w"
proof (rule poll_loop.raw_induct[where P = "\<lambda>env jobid w w'. heap w' = heap w \<and> brk w' = brk w \<and> files w' = files w", OF _ assms])
  fix poll :: "os_env \<Rightarrow> string \<Rightarrow> world \<Rightarrow> world option" and env jobid w w'
  assume ih: "\<And>e j v y. poll e j v = Some y \<Longrightarrow> heap y = heap v \<and> brk y = brk v \<and> files y = files v"
    and unfolded: "(case run_output env (''qstat -a '' @ jobid) w of
            (None, w1) \<Rightarrow> Some w1
          | (Some output, w1) \<Rightarrow>
              (case status_token output of
                 Inl e \<Rightarrow> Some w1
               | Inr status \<Rightarrow>
                   if status = ''C'' then Some w1 else poll env jobid (sleep 5 w1))) = Some w'"
  let ?w1 = "w\<lparr>launched := launched w @ [''qstat -a '' @ jobid]\<rparr>"
  have ro: "run_output env (''qstat -a '' @ jobid) w
              = (sh_output env (length (launched w)) (''qstat -a '' @ jobid), ?w1)"
    by (simp add: run_output_def)
  note body = unfolded[unfolded ro prod.case]
  show "heap w' = heap w \<and> brk w' = brk w \<and> files w' = files w"
  proof (cases "sh_output env (length (launched w)) (''qstat -a '' @ jobid)")
    case None
    with body have "w' = ?w1" by (simp only: option.case option.inject)
    then show ?thesis by simp
  next
    case (Some outp)
    note body1 = body[unfolded Some option.case]
    show ?thesis
    proof (cases "status_token outp")
      case (Inl e)
      with body1 have "w' = ?w1" by (simp only: sum.case option.inject)
      then show ?thesis by simp
    next
      case (Inr status)
      note body2 = body1[unfolded Inr sum.case]
      show ?thesis
      proof (cases "status = ''C''")
        case True
        with body2 have "w' = ?w1" by (simp only: refl if_True option.inject)
        then show ?thesis by simp
      next
        case False
        with body2 have nxt: "poll env jobid (sleep 5 ?w1) = Some w'" by (simp only: if_False)
        have "heap w' = heap (sleep 5 ?w1) \<and> brk w' = brk (sleep 5 ?w1) \<and> files w' = files (sleep 5 ?w1)"
          by (rule ih[OF nxt])
        then show ?thesis by (simp add: sleep_def)
      qed
    qed
  qed
qed


lemma torque_submit_frame:
  assumes "torque_submit env cmd w = Some (flag, w')"
  shows "heap w' = heap w \<and> brk w' = brk w \<and> files w' = files w"
proof (cases "sh_output env (length (launched (sleep 2 w))) cmd")
  case None
  with assms show ?thesis by (auto simp add: torque_submit_def run_output_def sleep_def)
next
  case (Some out)
  let ?w2 = "snd (run_output env (''showstart '' @ py_strip out) (sleep 5 (snd (run_output env cmd (sleep 2 w)))))"
  from assms Some obtain w3 where p: "poll_loop env (py_strip out) ?w2 = Some w3" and w': "w' = w3"
    by (auto simp add: torque_submit_def run_output_def Let_def split: option.splits)
  from poll_loop_frame[OF p] show ?thesis
    unfolding w' by (simp add: run_output_def sleep_def)
qed

lemma construct_mpirun_command_frame:
  assumes "construct_mpirun_command pkg dflt env script par args script_dir w = Some (r, w')"
  shows "heap w' = heap w \<and> brk w' = brk w \<and> files w' = files w"
proof -
  let ?par = "case par of None \<Rightarrow> dflt | Some q \<Rightarrow> q"
  consider (mpi) "backend_tag ?par = ''mpi''"
    | (slurm) "backend_tag ?par \<noteq> ''mpi''" "backend_tag ?par = ''slurm''"
    | (torque) "backend_tag ?par \<noteq> ''mpi''" "backend_tag ?par \<noteq> ''slurm''" "backend_tag ?par = ''torque''"
    | (other) "backend_tag ?par \<noteq> ''mpi''" "backend_tag ?par \<noteq> ''slurm''" "backend_tag ?par \<noteq> ''torque''"
    by blast
  then show ?thesis
  proof cases
    case mpi
    with assms show ?thesis
      by (auto simp add: construct_mpirun_command_def Let_def run_call_def simp del: list.inject)
  next
    case slurm
    with assms show ?thesis
      by (auto simp add: construct_mpirun_command_def Let_def run_call_def
          split: sum.splits simp del: list.inject)
  next
    case torque
    with assms obtain flag where
      "torque_submit env (torque_cmd ?par (mpirun_loc pkg script_dir script) args) w = Some (flag, w')"
      by (auto simp add: construct_mpirun_command_def Let_def split: option.splits simp del: list.inject)
    then show ?thesis by (rule torque_submit_frame)
  next
    case other
    with assms show ?thesis
      by (auto simp add: construct_mpirun_command_def Let_def simp del: list.inject)
  qed
qed

lemma merge_synthetic_returns_first:
  "merge_synthetic s (p # rs) = Inr (q, s') \<Longrightarrow> q = p"
  by (auto simp add: merge_synthetic_def split: sum.splits)

lemma write_artifact_heap:
  "write_artifact env direc k w = (r, w') \<Longrightarrow> heap w' = heap w \<and> brk w' = brk w"
  by (auto simp add: write_artifact_def Let_def split: if_splits)

lemma try_block_merged:
  assumes "try_block eng env kw par system w = Some (Inr names, w')"
  shows "\<exists>bm res hm.
            mesh eng (heap w system) = (Inr (), bm)
          \<and> load_result env = Inr res
          \<and> merge_synthetic ((heap w)(system := (if ltt kw then prepare_ltt eng bm else bm),
                                      brk w := res)) [system, brk w] = Inr (system, hm)
          \<and> heap w' = hm"
proof -
  obtain r1 w1 where m: "engine_call (mesh eng) system w = (r1, w1)" by (cases "engine_call (mesh eng) system w")
  from assms m obtain u where r1: "r1 = Inr u" by (cases r1) (auto simp add: try_block_def)
  from m r1 obtain bm where bm: "mesh eng (heap w system) = (Inr (), bm)"
    and w1: "w1 = w\<lparr>heap := (heap w)(system := bm)\<rparr>"
    by (auto simp add: engine_call_def split: prod.splits)
  let ?b0 = "if ltt kw then prepare_ltt eng bm else bm"
  let ?w2 = "w\<lparr>heap := (heap w)(system := ?b0)\<rparr>"
  let ?direc = "case directory par of None \<Rightarrow> cwd env | Some d \<Rightarrow> if d = [] then cwd env else d"
  have w2: "(if ltt kw then w1\<lparr>heap := (heap w1)(system := prepare_ltt eng (heap w1 system))\<rparr> else w1) = ?w2"
    by (simp add: w1)
  obtain a3 w3 where f3: "write_artifact env ?direc 0 ?w2 = (a3, w3)" by (cases "write_artifact env ?direc 0 ?w2")
  obtain a4 w4 where f4: "write_artifact env ?direc 1 w3 = (a4, w4)" by (cases "write_artifact env ?direc 1 w3")
  obtain a5 w5 where f5: "write_artifact env ?direc 2 w4 = (a5, w5)" by (cases "write_artifact env ?direc 2 w4")
  have h5: "heap w5 = heap ?w2" "brk w5 = brk w"
    using write_artifact_heap[OF f3] write_artifact_heap[OF f4] write_artifact_heap[OF f5] by simp_all
  from assms have rest: "(case (a3, w3) of (Inl e, w3) \<Rightarrow> Some (Inl e, w3)
      | (Inr sys_file, w3) \<Rightarrow>
     (case (a4, w4) of (Inl e, w4) \<Rightarrow> Some (Inl e, w4)
      | (Inr args_file, w4) \<Rightarrow>
     (case (a5, w5) of (Inl e, w5) \<Rightarrow> Some (Inl e, w5)
      | (Inr kwargs_file, w5) \<Rightarrow>
     (let args = fctn_name eng @ '' '' @ sys_file @ '' '' @ args_file @ '' '' @ kwargs_file
      in case construct_mpirun_command (pkg_dir eng) (default_mpi eng) env ''mpirun.py''
                (Some par) args ''backend'' w5 of
        None \<Rightarrow> None
      | Some (Inl e, w6) \<Rightarrow> Some (Inl e, w6)
      | Some (Inr (flag, mpitype), w6) \<Rightarrow>
          if flag \<noteq> 0 then Some (Inl (SystemExit 1), w6)
          else (case load_results env sys_file w6 of
                  (Inl e, w7) \<Rightarrow> Some (Inl e, w7)
                | (Inr results, w7) \<Rightarrow>
                    (case merge_synthetic (heap w7) [system, results] of
                       Inl (e, s) \<Rightarrow> Some (Inl e, w7\<lparr>heap := s\<rparr>)
                     | Inr (b, s) \<Rightarrow>
                         Some (Inr (sys_file, args_file, kwargs_file), w7\<lparr>heap := s\<rparr>))))))) = Some (Inr names, w')"
    unfolding try_block_def m r1 prod.case sum.case w2 Let_def f3
    using f4 f5 by (auto simp add: Let_def split: sum.splits prod.splits)
  then obtain sys_file args_file kwargs_file r6 w6 where
    a: "a3 = Inr sys_file" "a4 = Inr args_file" "a5 = Inr kwargs_file"
    and c: "construct_mpirun_command (pkg_dir eng) (default_mpi eng) env ''mpirun.py'' (Some par)
              (fctn_name eng @ '' '' @ sys_file @ '' '' @ args_file @ '' '' @ kwargs_file)
              ''backend'' w5 = Some (r6, w6)"
    and tail: "(case (r6, w6) of (Inl e, w6) \<Rightarrow> Some (Inl e, w6)
      | (Inr (flag, mpitype), w6) \<Rightarrow>
          if flag \<noteq> 0 then Some (Inl (SystemExit 1), w6)
          else (case load_results env sys_file w6 of
                  (Inl e, w7) \<Rightarrow> Some (Inl e, w7)
                | (Inr results, w7) \<Rightarrow>
                    (case merge_synthetic (heap w7) [system, results] of
                       Inl (e, s) \<Rightarrow> Some (Inl e, w7\<lparr>heap := s\<rparr>)
                     | Inr (b, s) \<Rightarrow>
                         Some (Inr (sys_file, args_file, kwargs_file), w7\<lparr>heap := s\<rparr>)))) = Some (Inr names, w')"
    by (auto simp add: Let_def split: sum.splits prod.splits option.splits simp del: list.inject)
  note fr = construct_mpirun_command_frame[OF c]
  from tail obtain res q hm where
    l: "load_result env = Inr res"
    and mg: "merge_synthetic ((heap w6)(brk w6 := res)) [system, brk w6] = Inr (q, hm)"
    and w': "heap w' = hm"
    by (auto simp add: load_results_def split: sum.splits prod.splits if_splits)
  have q: "q = system" by (rule merge_synthetic_returns_first[OF mg])
  have "heap w6 = (heap w)(system := ?b0)" "brk w6 = brk w" using fr h5 by simp_all
  with mg q have "merge_synthetic ((heap w)(system := ?b0, brk w := res)) [system, brk w] = Inr (system, hm)"
    by simp
  with bm l w' show ?thesis by blast
qed


lemma unlink_if_file_heap: "heap (unlink_if_file name w) = heap w"
  by (simp add: unlink_if_file_def)

text \<open>
  Claim C9. Without \<^verbatim>\<open>mpi\<close> the call returns what the decorated function returns. With
  \<^verbatim>\<open>mpi\<close>, a call that returns at all returns \<^verbatim>\<open>None\<close>, and the result is in the store
  at the caller's reference: the system after the mesh call (and \<^verbatim>\<open>prepare_ltt\<close> if asked
  for) has been merged with the body unpickled from the system file, a new object, and
  the merged system has then been post-processed in place.
\<close>

theorem do_run_return_value:
  "(mpi kw = MpiNone \<longrightarrow>
      (\<forall>b1 out b2. mesh eng (heap w system) = (Inr (), b1) \<and> fctn eng b1 = (Inr out, b2) \<longrightarrow>
         do_run eng env kw system w = Some (Returned (Some out), w\<lparr>heap := (heap w)(system := b2)\<rparr>)))
   \<and> (mpi kw \<noteq> MpiNone \<longrightarrow>
      (\<forall>v w'. do_run eng env kw system w = Some (Returned v, w') \<longrightarrow>
         v = None
         \<and> (\<exists>bm res hm bp.
               mesh eng (heap w system) = (Inr (), bm)
             \<and> load_result env = Inr res
             \<and> merge_synthetic ((heap w)(system := (if ltt kw then prepare_ltt eng bm else bm),
                                         brk w := res)) [system, brk w] = Inr (system, hm)
             \<and> postprocess eng (hm system) = (Inr (), bp)
             \<and> heap w' = hm(system := bp))))"
proof (intro conjI impI allI)
  fix b1 out b2
  assume "mpi kw = MpiNone" "mesh eng (heap w system) = (Inr (), b1) \<and> fctn eng b1 = (Inr out, b2)"
  then show "do_run eng env kw system w = Some (Returned (Some out), w\<lparr>heap := (heap w)(system := b2)\<rparr>)"
    by (simp add: do_run_def engine_call_def)
next
  fix v w'
  assume "mpi kw \<noteq> MpiNone" "do_run eng env kw system w = Some (Returned v, w')"
  then show "v = None"
    by (cases "mpi kw")
       (auto simp add: do_run_def Let_def split: if_splits option.splits prod.splits sum.splits)
next
  fix v w'
  assume d: "mpi kw \<noteq> MpiNone" and r: "do_run eng env kw system w = Some (Returned v, w')"
  let ?par = "case mpi kw of MpiPar q \<Rightarrow> q | _ \<Rightarrow> default_mpi eng"
  from d r obtain sys_file args_file kwargs_file w1 u where
    t: "try_block eng env kw ?par system w = Some (Inr (sys_file, args_file, kwargs_file), w1)"
    and p: "engine_call (postprocess eng) system
              (unlink_if_file kwargs_file (unlink_if_file args_file (unlink_if_file sys_file w1)))
            = (Inr u, w')"
    by (cases "mpi kw")
       (auto simp add: do_run_def Let_def split: if_splits option.splits prod.splits sum.splits)
  from try_block_merged[OF t] obtain bm res hm where
    m: "mesh eng (heap w system) = (Inr (), bm)" "load_result env = Inr res"
       "merge_synthetic ((heap w)(system := (if ltt kw then prepare_ltt eng bm else bm),
                                  brk w := res)) [system, brk w] = Inr (system, hm)"
    and h1: "heap w1 = hm" by blast
  from p obtain bp where "postprocess eng (hm system) = (Inr (), bp)" "heap w' = hm(system := bp)"
    by (auto simp add: engine_call_def unlink_if_file_heap h1 split: prod.splits)
  with m show "\<exists>bm res hm bp.
               mesh eng (heap w system) = (Inr (), bm)
             \<and> load_result env = Inr res
             \<and> merge_synthetic ((heap w)(system := (if ltt kw then prepare_ltt eng bm else bm),
                                         brk w := res)) [system, brk w] = Inr (system, hm)
             \<and> postprocess eng (hm system) = (Inr (), bp)
             \<and> heap w' = hm(system := bp)"
    by blast
qed

lemma run_ok:
  "do_run run_engine (run_env 0) (run_kwargs (MpiPar local_par)) 0 run_world =
     Some (Returned None,
           run_world\<lparr>heap := (\<lambda>a. [])
                       (0 := [lc_parset [Num 0, Num 1, Num 2, Num 3] [Num 10, Num 11, Num 12, Num 13] [Num 1]],
                        1 := [lc_parset [Num 2, Num 3] [Num 12, Num 13] [Num 1]]),
                     brk := 2,
                     launched := [''mpiexec -np 4   python /pkg/backend/mpirun.py compute /w/tmpA /w/tmpB /w/tmpC'']\<rparr>)"
  unfolding do_run_def try_block_def
  by (simp add: engine_call_def write_artifact_def Let_def construct_mpirun_command_def local_tag
      run_call_def mpi_cmd_ev[simplified] load_results_def merge_synthetic_def zip_length_def
      last3_def merge_key_def excluded_def iadd_key_def unlink_if_file_def fun_upd_twist)
     auto

theorem do_run_return_value_witness:
  "do_run run_engine (run_env 0) (run_kwargs MpiNone) 0 run_world =
     Some (Returned (Some ''done''), run_world)
   \<and> do_run run_engine (run_env 0) (run_kwargs (MpiPar local_par)) 0 run_world =
       Some (Returned None,
           run_world\<lparr>heap := (\<lambda>a. [])
                       (0 := [lc_parset [Num 0, Num 1, Num 2, Num 3] [Num 10, Num 11, Num 12, Num 13] [Num 1]],
                        1 := [lc_parset [Num 2, Num 3] [Num 12, Num 13] [Num 1]]),
                     brk := 2,
                     launched := [''mpiexec -np 4   python /pkg/backend/mpirun.py compute /w/tmpA /w/tmpB /w/tmpC'']\<rparr>)
   \<and> (\<exists>hm. merge_synthetic ((\<lambda>a. [])(0 := [lc_parset [Num 0, Num 1] [Num 10, Num 11] [Num 1]],
                                       1 := [lc_parset [Num 2, Num 3] [Num 12, Num 13] [Num 1]])) [0, 1]
               = Inr (0, hm)
            \<and> hm 0 = [lc_parset [Num 0, Num 1, Num 2, Num 3] [Num 10, Num 11, Num 12, Num 13] [Num 1]])"
proof (intro conjI)
  show "do_run run_engine (run_env 0) (run_kwargs MpiNone) 0 run_world =
     Some (Returned (Some ''done''), run_world)"
    using do_run_return_value[of "run_kwargs MpiNone" run_engine run_world 0 "run_env 0",
        THEN conjunct1, rule_format, of "heap run_world 0" "''done''" "heap run_world 0"]
    by simp
next
  show "do_run run_engine (run_env 0) (run_kwargs (MpiPar local_par)) 0 run_world =
       Some (Returned None,
           run_world\<lparr>heap := (\<lambda>a. [])
                       (0 := [lc_parset [Num 0, Num 1, Num 2, Num 3] [Num 10, Num 11, Num 12, Num 13] [Num 1]],
                        1 := [lc_parset [Num 2, Num 3] [Num 12, Num 13] [Num 1]]),
                     brk := 2,
                     launched := [''mpiexec -np 4   python /pkg/backend/mpirun.py compute /w/tmpA /w/tmpB /w/tmpC'']\<rparr>)"
    by (rule run_ok)
next
  have ne: "mpi (run_kwargs (MpiPar local_par)) \<noteq> MpiNone" by simp
  note T = do_run_return_value[of "run_kwargs (MpiPar local_par)" run_engine run_world 0 "run_env 0",
        THEN conjunct2, rule_format, OF ne run_ok, THEN conjunct2]
  show "\<exists>hm. merge_synthetic ((\<lambda>a. [])(0 := [lc_parset [Num 0, Num 1] [Num 10, Num 11] [Num 1]],
                                       1 := [lc_parset [Num 2, Num 3] [Num 12, Num 13] [Num 1]])) [0, 1]
               = Inr (0, hm)
            \<and> hm 0 = [lc_parset [Num 0, Num 1, Num 2, Num 3] [Num 10, Num 11, Num 12, Num 13] [Num 1]]"
    using T by simp
qed

section \<open>Merging\<close>

lemma merge_key_Inr:
  assumes "merge_key rp k pp = Inr pp'"
  shows "pcontext pp' = pcontext pp"
    and "map fst (pitems pp') = map fst (pitems pp)"
    and "map_of (pitems pp') = (map_of (pitems pp))(k := extend_value (map_of (pitems pp) k) (contribution rp k))"
    and "contribution rp k = Some x \<Longrightarrow> \<exists>w. map_of (pitems pp) k = Some (VList w)"
  using assms
  by (auto simp add: merge_key_def iadd_key_def contribution_def update_conv' update_keys
      map_of_eq_None_iff[symmetric] fun_upd_idem_iff
      split: sum.splits bool.splits option.splits pyval.splits if_splits dest: map_of_SomeD)

lemma merge_key_succeeds:
  assumes "\<forall>e. excluded rp k \<noteq> Inl e" and "map_of (pitems rp) k \<noteq> None"
    and "\<forall>x. contribution rp k = Some x \<longrightarrow> (\<exists>w. map_of (pitems pp) k = Some (VList w))"
  shows "\<exists>pp'. merge_key rp k pp = Inr pp'"
  using assms
  by (auto simp add: merge_key_def iadd_key_def contribution_def
      split: sum.splits bool.splits option.splits pyval.splits)

lemma fold_keys_Inr:
  assumes "fold_keys rp ks pp = Inr pp'" and "distinct ks"
  shows "pcontext pp' = pcontext pp \<and> map fst (pitems pp') = map fst (pitems pp)
         \<and> (\<forall>k. map_of (pitems pp') k =
                (if k \<in> set ks then extend_value (map_of (pitems pp) k) (contribution rp k)
                 else map_of (pitems pp) k))
         \<and> (\<forall>k\<in>set ks. \<forall>x. contribution rp k = Some x \<longrightarrow>
                (\<exists>w. map_of (pitems pp) k = Some (VList w)))"
  using assms
proof (induction ks arbitrary: pp)
  case Nil
  then show ?case by simp
next
  case (Cons k ks)
  from Cons.prems(1) obtain pp1 where
    k: "merge_key rp k pp = Inr pp1" and r: "fold_keys rp ks pp1 = Inr pp'"
    by (auto split: sum.splits)
  from Cons.prems(2) have d: "distinct ks" "k \<notin> set ks" by simp_all
  note ih = Cons.IH[OF r d(1)]
  note st = merge_key_Inr[OF k]
  have other: "\<And>j. j \<noteq> k \<Longrightarrow> map_of (pitems pp1) j = map_of (pitems pp) j"
    by (simp add: st(3))
  have here: "map_of (pitems pp1) k = extend_value (map_of (pitems pp) k) (contribution rp k)"
    by (simp add: st(3))
  show ?case
  proof (intro conjI allI ballI impI)
    show "pcontext pp' = pcontext pp" using ih st(1) by simp
    show "map fst (pitems pp') = map fst (pitems pp)" using ih st(2) by simp
  next
    fix j
    show "map_of (pitems pp') j =
            (if j \<in> set (k # ks) then extend_value (map_of (pitems pp) j) (contribution rp j)
             else map_of (pitems pp) j)"
    proof (cases "j = k")
      case True
      then show ?thesis using ih d(2) here by simp
    next
      case False
      then show ?thesis using ih other[OF False] by simp
    qed
  next
    fix j x
    assume j: "j \<in> set (k # ks)" and c: "contribution rp j = Some x"
    show "\<exists>w. map_of (pitems pp) j = Some (VList w)"
    proof (cases "j = k")
      case True
      then show ?thesis using st(4) c by simp
    next
      case False
      with j have "j \<in> set ks" by simp
      with ih c have "\<exists>w. map_of (pitems pp1) j = Some (VList w)" by blast
      then show ?thesis using other[OF False] by simp
    qed
  qed
qed

lemma fold_keys_succeeds:
  assumes "distinct ks"
    and "\<forall>k\<in>set ks. (\<forall>e. excluded rp k \<noteq> Inl e) \<and> map_of (pitems rp) k \<noteq> None
            \<and> (\<forall>x. contribution rp k = Some x \<longrightarrow> (\<exists>w. map_of (pitems pp) k = Some (VList w)))"
  shows "\<exists>pp'. fold_keys rp ks pp = Inr pp'"
  using assms
proof (induction ks arbitrary: pp)
  case Nil
  then show ?case by simp
next
  case (Cons k ks)
  from Cons.prems(2) obtain pp1 where k: "merge_key rp k pp = Inr pp1"
    using merge_key_succeeds[of rp k pp] by auto
  note st = merge_key_Inr[OF k]
  have other: "\<And>j. j \<noteq> k \<Longrightarrow> map_of (pitems pp1) j = map_of (pitems pp) j"
    by (simp add: st(3))
  have "\<exists>pp'. fold_keys rp ks pp1 = Inr pp'"
  proof (rule Cons.IH)
    show "distinct ks" using Cons.prems(1) by simp
    show "\<forall>k\<in>set ks. (\<forall>e. excluded rp k \<noteq> Inl e) \<and> map_of (pitems rp) k \<noteq> None
            \<and> (\<forall>x. contribution rp k = Some x \<longrightarrow> (\<exists>w. map_of (pitems pp1) k = Some (VList w)))"
    proof
      fix j assume j: "j \<in> set ks"
      with Cons.prems(1) have "j \<noteq> k" by auto
      with Cons.prems(2) j other show "(\<forall>e. excluded rp j \<noteq> Inl e) \<and> map_of (pitems rp) j \<noteq> None
            \<and> (\<forall>x. contribution rp j = Some x \<longrightarrow> (\<exists>w. map_of (pitems pp1) j = Some (VList w)))"
        by simp
    qed
  qed
  then show ?case using k by simp
qed

lemma merge_keys_fold:
  assumes "p \<noteq> r" and "i < length (s p)"
  shows "merge_keys p r i ks s =
           (case fold_keys (s r ! i) ks (s p ! i) of
              Inl (e, pp') \<Rightarrow> Inl (e, s(p := (s p)[i := pp']))
            | Inr pp' \<Rightarrow> Inr (s(p := (s p)[i := pp'])))"
  using assms
proof (induction ks arbitrary: s)
  case Nil
  then show ?case by simp
next
  case (Cons k ks)
  show ?case
  proof (cases "merge_key (s r ! i) k (s p ! i)")
    case (Inl e)
    then show ?thesis by simp
  next
    case (Inr pp1)
    let ?s1 = "s(p := (s p)[i := pp1])"
    have "merge_keys p r i ks ?s1 =
           (case fold_keys (?s1 r ! i) ks (?s1 p ! i) of
              Inl (e, pp') \<Rightarrow> Inl (e, ?s1(p := (?s1 p)[i := pp']))
            | Inr pp' \<Rightarrow> Inr (?s1(p := (?s1 p)[i := pp'])))"
      by (rule Cons.IH) (use Cons.prems in simp_all)
    then show ?thesis using Inr Cons.prems by (auto simp add: fun_eq_iff split: sum.splits prod.splits)
  qed
qed

lemma contribution_no_key: "map_of (pitems rp) k = None \<Longrightarrow> contribution rp k = None"
  by (simp add: contribution_def split: sum.splits bool.splits)

lemma extend_None [simp]: "extend_value v None = v"
  by (induction v "None :: atom list option" rule: extend_value.induct) simp_all

lemma fold_keys_all:
  assumes "fold_keys rp (map fst (pitems rp)) pp = Inr pp'" and "distinct (map fst (pitems rp))"
  shows "pcontext pp' = pcontext pp" and "map fst (pitems pp') = map fst (pitems pp)"
    and "map_of (pitems pp') k = extend_value (map_of (pitems pp) k) (contribution rp k)"
    and "contribution rp k = Some x \<Longrightarrow> \<exists>w. map_of (pitems pp) k = Some (VList w)"
proof -
  note f = fold_keys_Inr[OF assms]
  show "pcontext pp' = pcontext pp" "map fst (pitems pp') = map fst (pitems pp)" using f by simp_all
  show "map_of (pitems pp') k = extend_value (map_of (pitems pp) k) (contribution rp k)"
  proof (cases "k \<in> set (map fst (pitems rp))")
    case True
    then show ?thesis using f by simp
  next
    case False
    then have "map_of (pitems rp) k = None" by (simp add: map_of_eq_None_iff)
    then have "contribution rp k = None" by (rule contribution_no_key)
    then show ?thesis using f False by simp
  qed
  assume c: "contribution rp k = Some x"
  then have "map_of (pitems rp) k \<noteq> None" using contribution_no_key[of rp k] by auto
  then have "k \<in> set (map fst (pitems rp))" by (simp add: map_of_eq_None_iff)
  with f c show "\<exists>w. map_of (pitems pp) k = Some (VList w)" by blast
qed

lemma merge_replicas_fold:
  assumes "p \<notin> set rs" and "i < length (s p)"
  shows "merge_replicas p i rs s =
           (case replicas_fold (map (\<lambda>r. s r ! i) rs) (s p ! i) of
              Inl (e, pp') \<Rightarrow> Inl (e, s(p := (s p)[i := pp']))
            | Inr pp' \<Rightarrow> Inr (s(p := (s p)[i := pp'])))"
  using assms
proof (induction rs arbitrary: s)
  case Nil
  then show ?case by simp
next
  case (Cons r rs)
  from Cons.prems have pr: "p \<noteq> r" "p \<notin> set rs" by auto
  show ?case
  proof (cases "last3 (pcontext (s r ! i)) = ''syn''")
    case False
    then show ?thesis using Cons.IH[of s, OF pr(2) Cons.prems(2)] by simp
  next
    case True
    note mk = merge_keys_fold[of p r i s "map fst (pitems (s r ! i))", OF pr(1) Cons.prems(2)]
    show ?thesis
    proof (cases "fold_keys (s r ! i) (map fst (pitems (s r ! i))) (s p ! i)")
      case (Inl x)
      then show ?thesis using True mk by (simp split: prod.splits)
    next
      case (Inr pp1)
      let ?s1 = "s(p := (s p)[i := pp1])"
      have l: "i < length (?s1 p)" using Cons.prems(2) by simp
      have same: "map (\<lambda>r. ?s1 r ! i) rs = map (\<lambda>r. s r ! i) rs" using pr(2) by auto
      have "merge_replicas p i rs ?s1 =
           (case replicas_fold (map (\<lambda>r. ?s1 r ! i) rs) (?s1 p ! i) of
              Inl (e, pp') \<Rightarrow> Inl (e, ?s1(p := (?s1 p)[i := pp']))
            | Inr pp' \<Rightarrow> Inr (?s1(p := (?s1 p)[i := pp'])))"
        by (rule Cons.IH[of ?s1, OF pr(2) l])
      then show ?thesis using True mk Inr Cons.prems(2) pr(1) unfolding same
        by (auto simp add: fun_eq_iff split: sum.splits prod.splits)
    qed
  qed
qed

lemma fold_min_le: "fold (\<lambda>r n. min n (f r)) rs m \<le> (m :: nat)"
proof (induction rs arbitrary: m)
  case Nil
  then show ?case by simp
next
  case (Cons a rs)
  have "fold (\<lambda>r n. min n (f r)) rs (min m (f a)) \<le> min m (f a)" by (rule Cons.IH)
  then show ?case by simp
qed

lemma fold_min_le_elem: "r \<in> set rs \<Longrightarrow> fold (\<lambda>r n. min n (f r)) rs m \<le> (f r :: nat)"
proof (induction rs arbitrary: m)
  case Nil
  then show ?case by simp
next
  case (Cons a rs)
  show ?case
  proof (cases "r = a")
    case True
    have "fold (\<lambda>r n. min n (f r)) rs (min m (f a)) \<le> min m (f a)" by (rule fold_min_le)
    then show ?thesis using True by simp
  next
    case False
    then show ?thesis using Cons by simp
  qed
qed

lemma zip_length_le: "zip_length s p rs \<le> length (s p)"
  unfolding zip_length_def by (rule fold_min_le)

lemma zip_length_le_replica: "r \<in> set rs \<Longrightarrow> zip_length s p rs \<le> length (s r)"
  unfolding zip_length_def by (rule fold_min_le_elem)

lemma fold_min_same:
  "\<forall>r\<in>set rs. f r = m \<Longrightarrow> fold (\<lambda>r n. min n (f r)) rs m = (m :: nat)"
  by (induction rs) simp_all

lemma zip_length_same: "\<forall>r\<in>set rs. length (s r) = length (s p) \<Longrightarrow> zip_length s p rs = length (s p)"
  unfolding zip_length_def by (rule fold_min_same)

lemma merge_iterations_Inr:
  assumes "merge_iterations p rs js s = Inr s'" and "p \<notin> set rs" and "distinct js"
    and "\<forall>i\<in>set js. i < length (s p)"
  shows "(\<forall>a. a \<noteq> p \<longrightarrow> s' a = s a) \<and> length (s' p) = length (s p)
         \<and> (\<forall>i<length (s p).
               if i \<in> set js then replicas_fold (map (\<lambda>r. s r ! i) rs) (s p ! i) = Inr (s' p ! i)
               else s' p ! i = s p ! i)"
  using assms
proof (induction js arbitrary: s)
  case Nil
  then show ?case by simp
next
  case (Cons j js)
  from Cons.prems(4) have jl: "j < length (s p)" by simp
  note mr = merge_replicas_fold[of p rs j s, OF Cons.prems(2) jl]
  from Cons.prems(1) obtain s1 where s1: "merge_replicas p j rs s = Inr s1"
    and rest: "merge_iterations p rs js s1 = Inr s'"
    by (auto split: sum.splits)
  from s1 mr obtain pp1 where pp1: "replicas_fold (map (\<lambda>r. s r ! j) rs) (s p ! j) = Inr pp1"
    and s1_eq: "s1 = s(p := (s p)[j := pp1])"
    by (auto split: sum.splits prod.splits)
  have len1: "length (s1 p) = length (s p)" by (simp add: s1_eq)
  have b1: "\<forall>i\<in>set js. i < length (s1 p)" using Cons.prems(4) len1 by simp
  have d: "distinct js" "j \<notin> set js" using Cons.prems(3) by simp_all
  note ih = Cons.IH[of s1, OF rest Cons.prems(2) d(1) b1]
  have reps: "\<And>i. map (\<lambda>r. s1 r ! i) rs = map (\<lambda>r. s r ! i) rs"
    using Cons.prems(2) by (auto simp add: s1_eq)
  show ?case
  proof (intro conjI allI impI)
    fix a assume "a \<noteq> p"
    then show "s' a = s a" using ih by (simp add: s1_eq)
  next
    show "length (s' p) = length (s p)" using ih len1 by simp
  next
    fix i assume il: "i < length (s p)"
    show "if i \<in> set (j # js) then replicas_fold (map (\<lambda>r. s r ! i) rs) (s p ! i) = Inr (s' p ! i)
          else s' p ! i = s p ! i"
    proof (cases "i = j")
      case True
      then have "s' p ! i = s1 p ! j"
        using ih[unfolded len1, THEN conjunct2, THEN conjunct2, rule_format, OF il] d(2) by simp
      also have "\<dots> = pp1" using jl by (simp add: s1_eq)
      finally show ?thesis using True pp1 by simp
    next
      case False
      then have e: "s1 p ! i = s p ! i" by (simp add: s1_eq)
      note ih[unfolded reps len1, THEN conjunct2, THEN conjunct2, rule_format, OF il]
      then show ?thesis using False unfolding e by simp
    qed
  qed
qed

lemma merge_iterations_succeeds:
  assumes "p \<notin> set rs" and "distinct js" and "\<forall>i\<in>set js. i < length (s p)"
    and "\<forall>i\<in>set js. \<exists>pp'. replicas_fold (map (\<lambda>r. s r ! i) rs) (s p ! i) = Inr pp'"
  shows "\<exists>s'. merge_iterations p rs js s = Inr s'"
  using assms
proof (induction js arbitrary: s)
  case Nil
  then show ?case by simp
next
  case (Cons j js)
  from Cons.prems(3) have jl: "j < length (s p)" by simp
  note mr = merge_replicas_fold[of p rs j s, OF Cons.prems(1) jl]
  from Cons.prems(4) obtain pp1 where pp1: "replicas_fold (map (\<lambda>r. s r ! j) rs) (s p ! j) = Inr pp1"
    by auto
  let ?s1 = "s(p := (s p)[j := pp1])"
  have s1: "merge_replicas p j rs s = Inr ?s1" using mr pp1 by simp
  have d: "distinct js" "j \<notin> set js" using Cons.prems(2) by simp_all
  have reps: "\<And>i. map (\<lambda>r. ?s1 r ! i) rs = map (\<lambda>r. s r ! i) rs"
    using Cons.prems(1) by auto
  have "\<exists>s'. merge_iterations p rs js ?s1 = Inr s'"
  proof (rule Cons.IH[OF Cons.prems(1) d(1)])
    show "\<forall>i\<in>set js. i < length (?s1 p)" using Cons.prems(3) by simp
    show "\<forall>i\<in>set js. \<exists>pp'. replicas_fold (map (\<lambda>r. ?s1 r ! i) rs) (?s1 p ! i) = Inr pp'"
    proof
      fix i assume i: "i \<in> set js"
      then have "i \<noteq> j" using d(2) by auto
      then have "?s1 p ! i = s p ! i" by simp
      then show "\<exists>pp'. replicas_fold (map (\<lambda>r. ?s1 r ! i) rs) (?s1 p ! i) = Inr pp'"
        using Cons.prems(4) i unfolding reps by simp
    qed
  qed
  then show ?case using s1 by simp
qed

lemma upt_facts: "distinct [0..<n]" "\<forall>i\<in>set [0..<n]. i < n"
  by simp_all

lemma merge_synthetic_Inr:
  assumes "merge_synthetic s (p # rs) = Inr (q, s')" and "p \<notin> set rs"
  shows "q = p" and "\<forall>a. a \<noteq> p \<longrightarrow> s' a = s a" and "length (s' p) = length (s p)"
    and "i < zip_length s p rs \<Longrightarrow> replicas_fold (map (\<lambda>r. s r ! i) rs) (s p ! i) = Inr (s' p ! i)"
    and "zip_length s p rs \<le> i \<Longrightarrow> i < length (s p) \<Longrightarrow> s' p ! i = s p ! i"
proof -
  from assms(1) have it: "merge_iterations p rs [0..<zip_length s p rs] s = Inr s'" and q: "q = p"
    by (auto simp add: merge_synthetic_def split: sum.splits)
  have b: "\<forall>i\<in>set [0..<zip_length s p rs]. i < length (s p)"
    using zip_length_le[of s p rs] by auto
  note m = merge_iterations_Inr[OF it assms(2) upt_facts(1) b]
  show "q = p" by (rule q)
  show "\<forall>a. a \<noteq> p \<longrightarrow> s' a = s a" "length (s' p) = length (s p)" using m by simp_all
  {
    assume i: "i < zip_length s p rs"
    then have "i < length (s p)" using zip_length_le[of s p rs] by simp
    from m[THEN conjunct2, THEN conjunct2, rule_format, OF this] i
    show "replicas_fold (map (\<lambda>r. s r ! i) rs) (s p ! i) = Inr (s' p ! i)" by simp
  }
  {
    assume i: "zip_length s p rs \<le> i" "i < length (s p)"
    from m[THEN conjunct2, THEN conjunct2, rule_format, OF i(2)] i(1)
    show "s' p ! i = s p ! i" by simp
  }
qed

lemma merge_synthetic_succeeds:
  assumes "p \<notin> set rs"
    and "\<forall>i<zip_length s p rs. \<exists>pp'. replicas_fold (map (\<lambda>r. s r ! i) rs) (s p ! i) = Inr pp'"
  shows "\<exists>s'. merge_synthetic s (p # rs) = Inr (p, s')"
proof -
  have b: "\<forall>i\<in>set [0..<zip_length s p rs]. i < length (s p)"
    using zip_length_le[of s p rs] by auto
  have e: "\<forall>i\<in>set [0..<zip_length s p rs].
             \<exists>pp'. replicas_fold (map (\<lambda>r. s r ! i) rs) (s p ! i) = Inr pp'"
    using assms(2) by simp
  from merge_iterations_succeeds[OF assms(1) upt_facts(1) b e]
  show ?thesis by (auto simp add: merge_synthetic_def)
qed

lemma contribution_no_columns:
  "map_of (pitems rp) ''columns'' = None \<Longrightarrow> map_of (pitems rp) k = Some (VList x) \<Longrightarrow>
     contribution rp k = Some x"
  by (simp add: contribution_def excluded_def)

text \<open>
  Claim C10. When a primary and a replica (a different body) have been merged without an
  exception, every list-valued field of a replica parameter set that has a
  \<^verbatim>\<open>syn\<close> context and no \<^verbatim>\<open>columns\<close> key has been appended to the primary's list under
  the same key, at the same position of the walk: without \<^verbatim>\<open>columns\<close> nothing is excluded.
\<close>

theorem merge_without_columns:
  assumes "merge_synthetic s [p, r] = Inr (q, s')" and "p \<noteq> r"
    and "i < length (s p)" and "i < length (s r)"
    and "last3 (pcontext (s r ! i)) = ''syn''"
    and "distinct (map fst (pitems (s r ! i)))"
    and "map_of (pitems (s r ! i)) ''columns'' = None"
    and "map_of (pitems (s r ! i)) key = Some (VList value)"
  shows "\<exists>old. map_of (pitems (s p ! i)) key = Some (VList old)
               \<and> map_of (pitems (s' p ! i)) key = Some (VList (old @ value))"
proof -
  have pr: "p \<notin> set [r]" using assms(2) by simp
  have z: "i < zip_length s p [r]" using assms(3,4) by (simp add: zip_length_def)
  from merge_synthetic_Inr(4)[OF assms(1) pr z] assms(5)
  have f: "fold_keys (s r ! i) (map fst (pitems (s r ! i))) (s p ! i) = Inr (s' p ! i)"
    by (simp split: sum.splits)
  have c: "contribution (s r ! i) key = Some value"
    by (rule contribution_no_columns[OF assms(7,8)])
  from fold_keys_all(4)[OF f assms(6) c] obtain old where
    old: "map_of (pitems (s p ! i)) key = Some (VList old)" by blast
  from fold_keys_all(3)[OF f assms(6), of key] c old
  have "map_of (pitems (s' p ! i)) key = Some (VList (old @ value))" by simp
  with old show ?thesis by blast
qed

lemma columns_ok_excluded: "columns_ok rp \<Longrightarrow> excluded rp k \<noteq> Inl e"
  by (auto simp add: columns_ok_def excluded_def split: option.splits pyval.splits sum.splits)

lemma merge_iterations_no_replicas: "merge_iterations p [] js s = Inr s"
  by (induction js) simp_all

lemma excluded_merge_eligible:
  assumes "columns_ok rp" and "last3 (pcontext rp) = ''syn''"
  shows "(excluded rp k = Inr False) = merge_eligible rp k"
  using assms
  by (auto simp add: excluded_def merge_eligible_def columns_ok_def
      split: option.splits pyval.splits sum.splits)

lemma contribution_merge_eligible:
  assumes "columns_ok rp" and "last3 (pcontext rp) = ''syn''"
  shows "contribution rp k =
           (case map_of (pitems rp) k of
              Some (VList x) \<Rightarrow> if merge_eligible rp k then Some x else None
            | _ \<Rightarrow> None)"
proof (cases "merge_eligible rp k")
  case True
  then have "excluded rp k = Inr False" using excluded_merge_eligible[OF assms] by simp
  then show ?thesis using True by (simp add: contribution_def split: option.splits pyval.splits)
next
  case False
  then have "excluded rp k \<noteq> Inr False" using excluded_merge_eligible[OF assms] by simp
  then show ?thesis using False
    by (auto simp add: contribution_def split: option.splits pyval.splits sum.splits bool.splits)
qed

lemma same_structure_eligible:
  "same_structure rp pp0 \<Longrightarrow> merge_eligible rp k = merge_eligible pp0 k"
  by (simp add: same_structure_def merge_eligible_def)

lemma same_structure_columns_ok: "same_structure rp pp0 \<Longrightarrow> columns_ok rp = columns_ok pp0"
  by (simp add: same_structure_def columns_ok_def)

lemma appended_start: "appended (\<lambda>k. []) pp0 pp0"
  by (auto simp add: appended_def split: option.splits pyval.splits)

lemma appended_not_syn:
  assumes "last3 (pcontext pp0) \<noteq> ''syn''" and "appended acc pp0 pp"
  shows "appended acc' pp0 pp"
proof -
  have "\<And>k. \<not> merge_eligible pp0 k" using assms(1) by (simp add: merge_eligible_def)
  then show ?thesis using assms(2)
    by (auto simp add: appended_def split: option.splits pyval.splits)
qed


lemma fold_keys_appended:
  assumes d: "distinct (map fst (pitems pp0))" and c: "columns_ok pp0"
    and ss: "same_structure rp pp0" and syn: "last3 (pcontext rp) = ''syn''"
    and ap: "appended acc pp0 pp"
  shows "\<exists>pp'. fold_keys rp (map fst (pitems rp)) pp = Inr pp'
               \<and> appended (\<lambda>k. acc k @ list_at rp k) pp0 pp'"
proof -
  have keys: "map fst (pitems rp) = map fst (pitems pp0)" using ss by (simp add: same_structure_def)
  have drp: "distinct (map fst (pitems rp))" using d keys by simp
  have crp: "columns_ok rp" using c same_structure_columns_ok[OF ss] by simp
  note con = contribution_merge_eligible[OF crp syn]
  have el: "\<And>k. merge_eligible rp k = merge_eligible pp0 k" by (rule same_structure_eligible[OF ss])
  have kind: "\<And>k. is_list (map_of (pitems rp) k) = is_list (map_of (pitems pp0) k)"
    using ss by (simp add: same_structure_def)
  have look: "\<And>k. map_of (pitems pp) k =
             (case map_of (pitems pp0) k of
                Some (VList x) \<Rightarrow> Some (VList (if merge_eligible pp0 k then x @ acc k else x))
              | v \<Rightarrow> v)"
    using ap by (simp add: appended_def)
  have pre: "\<forall>k\<in>set (map fst (pitems rp)). (\<forall>e. excluded rp k \<noteq> Inl e) \<and> map_of (pitems rp) k \<noteq> None
            \<and> (\<forall>x. contribution rp k = Some x \<longrightarrow> (\<exists>w. map_of (pitems pp) k = Some (VList w)))"
  proof (intro ballI conjI allI impI)
    fix k e assume "k \<in> set (map fst (pitems rp))"
    show "excluded rp k \<noteq> Inl e" by (rule columns_ok_excluded[OF crp])
  next
    fix k assume "k \<in> set (map fst (pitems rp))"
    then show "map_of (pitems rp) k \<noteq> None" by (simp add: map_of_eq_None_iff)
  next
    fix k x assume "contribution rp k = Some x"
    then have "is_list (map_of (pitems rp) k)"
      by (auto simp add: con is_list_def split: option.splits pyval.splits)
    then have "is_list (map_of (pitems pp0) k)" using kind by simp
    then show "\<exists>w. map_of (pitems pp) k = Some (VList w)"
      by (auto simp add: look is_list_def split: option.splits pyval.splits)
  qed
  from fold_keys_succeeds[OF drp pre] obtain pp' where
    f: "fold_keys rp (map fst (pitems rp)) pp = Inr pp'" by blast
  note a = fold_keys_all[OF f drp]
  have "appended (\<lambda>k. acc k @ list_at rp k) pp0 pp'"
    unfolding appended_def
  proof (intro conjI allI)
    show "pcontext pp' = pcontext pp0" using a(1) ap by (simp add: appended_def)
    show "map fst (pitems pp') = map fst (pitems pp0)" using a(2) ap by (simp add: appended_def)
    fix k
    show "map_of (pitems pp') k =
            (case map_of (pitems pp0) k of
               Some (VList x) \<Rightarrow>
                 Some (VList (if merge_eligible pp0 k then x @ acc k @ list_at rp k else x))
             | v \<Rightarrow> v)"
    proof (cases "is_list (map_of (pitems pp0) k)")
      case False
      then have "\<not> is_list (map_of (pitems rp) k)" using kind by simp
      then have "contribution rp k = None"
        by (auto simp add: con is_list_def split: option.splits pyval.splits)
      then show ?thesis using False
        by (auto simp add: a(3)[of k] look is_list_def split: option.splits pyval.splits)
    next
      case True
      then obtain x where x: "map_of (pitems pp0) k = Some (VList x)"
        by (auto simp add: is_list_def split: option.splits pyval.splits)
      from True have "is_list (map_of (pitems rp) k)" using kind by simp
      then obtain y where y: "map_of (pitems rp) k = Some (VList y)"
        by (auto simp add: is_list_def split: option.splits pyval.splits)
      have ly: "list_at rp k = y" by (simp add: list_at_def y)
      show ?thesis
      proof (cases "merge_eligible pp0 k")
        case True
        then have "contribution rp k = Some y" by (simp add: con y el)
        then show ?thesis using True by (simp add: a(3)[of k] look x ly)
      next
        case False
        then have "contribution rp k = None" by (simp add: con y el)
        then show ?thesis using False by (simp add: a(3)[of k] look x)
      qed
    qed
  qed
  with f show ?thesis by blast
qed

lemma replicas_fold_appended:
  assumes d: "distinct (map fst (pitems pp0))" and c: "columns_ok pp0"
    and ss: "\<forall>rp\<in>set rps. same_structure rp pp0"
    and ap: "appended acc pp0 pp"
  shows "\<exists>pp'. replicas_fold rps pp = Inr pp'
               \<and> appended (\<lambda>k. acc k @ concat (map (\<lambda>rp. list_at rp k) rps)) pp0 pp'"
  using ss ap
proof (induction rps arbitrary: acc pp)
  case Nil
  then show ?case by simp
next
  case (Cons rp rps)
  from Cons.prems(1) have s1: "same_structure rp pp0" and sr: "\<forall>rp\<in>set rps. same_structure rp pp0"
    by simp_all
  have ctx: "pcontext rp = pcontext pp0" using s1 by (simp add: same_structure_def)
  show ?case
  proof (cases "last3 (pcontext rp) = ''syn''")
    case True
    from fold_keys_appended[OF d c s1 True Cons.prems(2)] obtain pp1 where
      f: "fold_keys rp (map fst (pitems rp)) pp = Inr pp1"
      and a1: "appended (\<lambda>k. acc k @ list_at rp k) pp0 pp1" by blast
    from Cons.IH[OF sr a1] obtain pp' where
      r: "replicas_fold rps pp1 = Inr pp'"
      and a2: "appended (\<lambda>k. (acc k @ list_at rp k) @ concat (map (\<lambda>rp. list_at rp k) rps)) pp0 pp'"
      by blast
    from a2 have "appended (\<lambda>k. acc k @ concat (map (\<lambda>rp. list_at rp k) (rp # rps))) pp0 pp'"
      by simp
    then show ?thesis using True f r by auto
  next
    case False
    from Cons.IH[OF sr Cons.prems(2)] obtain pp' where
      r: "replicas_fold rps pp = Inr pp'"
      and a2: "appended (\<lambda>k. acc k @ concat (map (\<lambda>rp. list_at rp k) rps)) pp0 pp'" by blast
    from False ctx have "last3 (pcontext pp0) \<noteq> ''syn''" by simp
    from appended_not_syn[OF this a2]
    have "appended (\<lambda>k. acc k @ concat (map (\<lambda>rp. list_at rp k) (rp # rps))) pp0 pp'" .
    then show ?thesis using False r by auto
  qed
qed


lemma list_at_appended:
  "appended acc pp0 pp \<Longrightarrow>
     list_at pp k = (if merge_eligible pp0 k then list_at pp0 k @ (if is_list (map_of (pitems pp0) k) then acc k else []) else list_at pp0 k)"
  by (auto simp add: appended_def list_at_def is_list_def split: option.splits pyval.splits)

lemma length_concat_same:
  "\<forall>r\<in>set rs. length (f r) = n \<Longrightarrow> length (concat (map f rs)) = length rs * n"
  by (induction rs) simp_all

lemma list_at_not_list: "\<not> is_list (map_of (pitems ps) k) \<Longrightarrow> list_at ps k = []"
  by (auto simp add: list_at_def is_list_def split: option.splits pyval.splits)

text \<open>
  Claim C8. Merging the primary alone returns its reference and leaves the store as it is.
  Merging the primary with \<open>N\<close> replicas, each a different body from the primary, of the
  primary's length and structurally identical to it position by position (same context,
  keys, \<^verbatim>\<open>columns\<close> and list-valued fields; the values are each replica's own), returns the
  primary's reference, and only the primary's body changes. Every merge-eligible list of
  the primary is followed by the replicas' lists under the same key, in the order of the
  replicas; when these have the length of the primary's list, the result has \<open>N + 1\<close> times
  that length. Every other field, and every context and key, stays as it was.
\<close>

theorem merge_identical_replicas:
  "merge_synthetic s [p] = Inr (p, s)
   \<and> (p \<notin> set rs \<and> wf_body (s p)
      \<and> (\<forall>r\<in>set rs. length (s r) = length (s p)
                       \<and> (\<forall>i<length (s p). same_structure (s r ! i) (s p ! i))) \<longrightarrow>
        (\<exists>s'. merge_synthetic s (p # rs) = Inr (p, s')
           \<and> (\<forall>a. a \<noteq> p \<longrightarrow> s' a = s a)
           \<and> length (s' p) = length (s p)
           \<and> (\<forall>i<length (s p).
                 pcontext (s' p ! i) = pcontext (s p ! i)
                 \<and> map fst (pitems (s' p ! i)) = map fst (pitems (s p ! i))
                 \<and> (\<forall>key.
                       map_of (pitems (s' p ! i)) key =
                         (case map_of (pitems (s p ! i)) key of
                            Some (VList x) \<Rightarrow>
                              Some (VList (if merge_eligible (s p ! i) key
                                           then x @ concat (map (\<lambda>r. list_at (s r ! i) key) rs)
                                           else x))
                          | v \<Rightarrow> v)
                       \<and> (merge_eligible (s p ! i) key
                            \<and> (\<forall>r\<in>set rs. length (list_at (s r ! i) key)
                                               = length (list_at (s p ! i) key)) \<longrightarrow>
                          length (list_at (s' p ! i) key)
                            = Suc (length rs) * length (list_at (s p ! i) key))))))"
proof (intro conjI impI)
  show "merge_synthetic s [p] = Inr (p, s)"
    by (simp add: merge_synthetic_def merge_iterations_no_replicas)
next
  assume h: "p \<notin> set rs \<and> wf_body (s p)
      \<and> (\<forall>r\<in>set rs. length (s r) = length (s p)
                       \<and> (\<forall>i<length (s p). same_structure (s r ! i) (s p ! i)))"
  then have pr: "p \<notin> set rs" and wf: "wf_body (s p)"
    and len: "\<forall>r\<in>set rs. length (s r) = length (s p)"
    and ss: "\<And>r i. r \<in> set rs \<Longrightarrow> i < length (s p) \<Longrightarrow> same_structure (s r ! i) (s p ! i)"
    by simp_all
  have z: "zip_length s p rs = length (s p)"
    by (rule zip_length_same) (rule len)
  have each: "\<exists>pp'. replicas_fold (map (\<lambda>r. s r ! i) rs) (s p ! i) = Inr pp'
                 \<and> appended (\<lambda>k. concat (map (\<lambda>r. list_at (s r ! i) k) rs)) (s p ! i) pp'"
    if i: "i < length (s p)" for i
  proof -
    from wf i have d: "distinct (map fst (pitems (s p ! i)))" and c: "columns_ok (s p ! i)"
      by (simp_all add: wf_body_def list_all_length)
    have a: "\<forall>rp\<in>set (map (\<lambda>r. s r ! i) rs). same_structure rp (s p ! i)"
      using ss[OF _ i] by auto
    from replicas_fold_appended[OF d c a appended_start]
    show ?thesis by (simp add: o_def)
  qed
  have "\<exists>s'. merge_synthetic s (p # rs) = Inr (p, s')"
    by (rule merge_synthetic_succeeds[OF pr]) (use each z in auto)
  then obtain s' where m: "merge_synthetic s (p # rs) = Inr (p, s')" by blast
  note c = merge_synthetic_Inr[OF m pr]
  have ap: "appended (\<lambda>k. concat (map (\<lambda>r. list_at (s r ! i) k) rs)) (s p ! i) (s' p ! i)"
    if i: "i < length (s p)" for i
  proof -
    from each[OF i] obtain pp' where
      "replicas_fold (map (\<lambda>r. s r ! i) rs) (s p ! i) = Inr pp'"
      "appended (\<lambda>k. concat (map (\<lambda>r. list_at (s r ! i) k) rs)) (s p ! i) pp'" by blast
    moreover have "replicas_fold (map (\<lambda>r. s r ! i) rs) (s p ! i) = Inr (s' p ! i)"
      by (rule c(4)) (use i z in simp)
    ultimately show ?thesis by simp
  qed
  show "\<exists>s'. merge_synthetic s (p # rs) = Inr (p, s')
           \<and> (\<forall>a. a \<noteq> p \<longrightarrow> s' a = s a)
           \<and> length (s' p) = length (s p)
           \<and> (\<forall>i<length (s p).
                 pcontext (s' p ! i) = pcontext (s p ! i)
                 \<and> map fst (pitems (s' p ! i)) = map fst (pitems (s p ! i))
                 \<and> (\<forall>key.
                       map_of (pitems (s' p ! i)) key =
                         (case map_of (pitems (s p ! i)) key of
                            Some (VList x) \<Rightarrow>
                              Some (VList (if merge_eligible (s p ! i) key
                                           then x @ concat (map (\<lambda>r. list_at (s r ! i) key) rs)
                                           else x))
                          | v \<Rightarrow> v)
                       \<and> (merge_eligible (s p ! i) key
                            \<and> (\<forall>r\<in>set rs. length (list_at (s r ! i) key)
                                               = length (list_at (s p ! i) key)) \<longrightarrow>
                          length (list_at (s' p ! i) key)
                            = Suc (length rs) * length (list_at (s p ! i) key))))"
  proof (rule exI[of _ s'], intro conjI allI impI)
    show "merge_synthetic s (p # rs) = Inr (p, s')" by (rule m)
    show "length (s' p) = length (s p)" by (rule c(3))
  next
    fix a assume "a \<noteq> p" then show "s' a = s a" using c(2) by simp
  next
    fix i assume "i < length (s p)"
    then show "pcontext (s' p ! i) = pcontext (s p ! i)" using ap by (simp add: appended_def)
  next
    fix i assume "i < length (s p)"
    then show "map fst (pitems (s' p ! i)) = map fst (pitems (s p ! i))"
      using ap by (simp add: appended_def)
  next
    fix i key assume "i < length (s p)"
    from ap[OF this]
    show "map_of (pitems (s' p ! i)) key =
            (case map_of (pitems (s p ! i)) key of
               Some (VList x) \<Rightarrow>
                 Some (VList (if merge_eligible (s p ! i) key
                              then x @ concat (map (\<lambda>r. list_at (s r ! i) key) rs)
                              else x))
             | v \<Rightarrow> v)"
      by (simp add: appended_def)
  next
    fix i key assume i: "i < length (s p)"
      and e: "merge_eligible (s p ! i) key
              \<and> (\<forall>r\<in>set rs. length (list_at (s r ! i) key) = length (list_at (s p ! i) key))"
    note la = list_at_appended[OF ap[OF i], of key]
    show "length (list_at (s' p ! i) key) = Suc (length rs) * length (list_at (s p ! i) key)"
    proof (cases "is_list (map_of (pitems (s p ! i)) key)")
      case True
      have "length (concat (map (\<lambda>r. list_at (s r ! i) key) rs))
              = length rs * length (list_at (s p ! i) key)"
        by (rule length_concat_same) (use e in simp)
      then show ?thesis using la e True by simp
    next
      case False
      then show ?thesis using la e by (simp add: list_at_not_list)
    qed
  qed
qed
















lemmas merge_eval = merge_synthetic_def zip_length_def last3_def merge_key_def excluded_def
  iadd_key_def



lemma ev_three: "merge_synthetic three_store [0, 1, 2] = Inr (0, three_merged)"
  by (simp add: merge_eval fun_upd_twist)

lemma ev_nocol:
  "merge_synthetic (two_store [nocol_parset ''lc01'' [Num 0] [Num 10]]
                              [nocol_parset ''lc01'' [Num 2] [Num 12]]) [0, 1]
     = Inr (0, two_store [nocol_parset ''lc01'' [Num 0, Num 2] [Num 10, Num 12]]
                         [nocol_parset ''lc01'' [Num 2] [Num 12]])"
  by (simp add: merge_eval fun_upd_twist)

theorem merge_without_columns_witness:
  "\<exists>old. map_of (pitems (two_store [nocol_parset ''lc01'' [Num 0] [Num 10]]
                                    [nocol_parset ''lc01'' [Num 2] [Num 12]] 0 ! 0)) ''flux''
             = Some (VList old)
         \<and> map_of (pitems (two_store [nocol_parset ''lc01'' [Num 0, Num 2] [Num 10, Num 12]]
                                      [nocol_parset ''lc01'' [Num 2] [Num 12]] 0 ! 0)) ''flux''
             = Some (VList (old @ [Num 12]))"
  by (rule merge_without_columns[OF ev_nocol, where i = 0]) (simp_all add: last3_def)

theorem merge_identical_replicas_witness:
  "merge_synthetic three_store [0] = Inr (0, three_store)
   \<and> merge_synthetic three_store [0, 1, 2] = Inr (0, three_merged)
   \<and> map_of (pitems (three_merged 0 ! 0)) ''flux''
        = Some (VList [Num 10, Num 11, Num 12, Num 13, Num 14, Num 15])
   \<and> map_of (pitems (three_merged 0 ! 0)) ''sigma'' = Some (VList [Num 1])
   \<and> map_of (pitems (three_merged 0 ! 0)) ''ref'' = Some (VStr ''lc01'')
   \<and> length (list_at (three_merged 0 ! 0) ''flux'')
        = Suc (length [1, 2 :: nat]) * length (list_at (three_store 0 ! 0) ''flux'')"
proof -
  note T = merge_identical_replicas[of three_store 0 "[1, 2]"]
  have h: "0 \<notin> set [1, 2 :: nat] \<and> wf_body (three_store 0)
           \<and> (\<forall>r\<in>set [1, 2]. length (three_store r) = length (three_store 0)
                \<and> (\<forall>i<length (three_store 0).
                       same_structure (three_store r ! i) (three_store 0 ! i)))"
    by (simp add: wf_body_def columns_ok_def same_structure_def is_list_def)
  from T[THEN conjunct2, rule_format, OF h] obtain s' where
    m: "merge_synthetic three_store [0, 1, 2] = Inr (0, s')"
    and k: "\<forall>i<length (three_store 0). \<forall>key.
              map_of (pitems (s' 0 ! i)) key =
                (case map_of (pitems (three_store 0 ! i)) key of
                   Some (VList x) \<Rightarrow>
                     Some (VList (if merge_eligible (three_store 0 ! i) key
                                  then x @ concat (map (\<lambda>r. list_at (three_store r ! i) key) [1, 2])
                                  else x))
                 | v \<Rightarrow> v)
              \<and> (merge_eligible (three_store 0 ! i) key
                   \<and> (\<forall>r\<in>set [1, 2]. length (list_at (three_store r ! i) key)
                                      = length (list_at (three_store 0 ! i) key)) \<longrightarrow>
                 length (list_at (s' 0 ! i) key)
                   = Suc (length [1, 2 :: nat]) * length (list_at (three_store 0 ! i) key))"
    by blast
  from m have s': "s' = three_merged" unfolding ev_three by simp
  have el: "merge_eligible (three_store 0 ! 0) ''flux''"
           "\<not> merge_eligible (three_store 0 ! 0) ''sigma''"
    by (simp_all add: merge_eligible_def last3_def)
  have ll: "\<forall>r\<in>set [1, 2]. length (list_at (three_store r ! 0) ''flux'')
                             = length (list_at (three_store 0 ! 0) ''flux'')"
    by (simp add: list_at_def)
  have f: "map_of (pitems (s' 0 ! 0)) ''flux''
             = Some (VList [Num 10, Num 11, Num 12, Num 13, Num 14, Num 15])"
    using k[rule_format, of 0 "''flux''", THEN conjunct1] el(1) by (simp add: list_at_def)
  have g: "map_of (pitems (s' 0 ! 0)) ''sigma'' = Some (VList [Num 1])"
    using k[rule_format, of 0 "''sigma''", THEN conjunct1] el(2) by simp
  have r: "map_of (pitems (s' 0 ! 0)) ''ref'' = Some (VStr ''lc01'')"
    using k[rule_format, of 0 "''ref''", THEN conjunct1] by simp
  have n: "length (list_at (s' 0 ! 0) ''flux'')
             = Suc (length [1, 2 :: nat]) * length (list_at (three_store 0 ! 0) ''flux'')"
    by (rule k[rule_format, of 0 "''flux''", THEN conjunct2, rule_format])
       (simp, rule conjI[OF el(1) ll])
  show ?thesis
    using T[THEN conjunct1] m f g r n unfolding s' by (intro conjI)
qed



end
